theory Spec2Isabelle
  imports Main "HOL-Library.Word" "HOL-Library.Product_Lexorder"
begin

section \<open>The evidence pool of go-kardia (package evidence, pool.go)\<close>

text \<open>
  A shallow embedding of \<^verbatim>\<open>Pool\<close>: the pool is a record that every method takes and
  returns, the durable store is a value inside it, a Go \<^verbatim>\<open>error\<close> result is an
  \<open>option\<close> beside the returned pool, and the \<^verbatim>\<open>panic\<close> of \<^verbatim>\<open>Update\<close> is the left
  summand of its result. Logging is left out: it has no effect on the pool.
\<close>

subsection \<open>Machine integers, time and evidence\<close>

type_synonym uint64 = "64 word"
type_synonym uint32 = "32 word"

text \<open>
  \<^verbatim>\<open>time.Time\<close> is a count of nanoseconds since Go's zero time and \<^verbatim>\<open>time.Duration\<close> an
  \<^verbatim>\<open>int64\<close> of nanoseconds. Instants are unbounded integers here (Go's own range is
  about \<open>2^63\<close> seconds); the saturation of \<^verbatim>\<open>Time.Sub\<close> to the range of
  \<^verbatim>\<open>Duration\<close> is kept.
\<close>

type_synonym timestamp = int
type_synonym Duration = int
type_synonym bytes = "8 word list"

definition maxDuration :: Duration where
  "maxDuration = 2 ^ 63 - 1"

definition minDuration :: Duration where
  "minDuration = - (2 ^ 63)"

definition Second :: Duration where
  "Second = 1000000000"

definition Sub :: "timestamp \<Rightarrow> timestamp \<Rightarrow> Duration" where
  "Sub t u = (let d = t - u in
     if d > maxDuration then maxDuration
     else if d < minDuration then minDuration
     else d)"

definition Add :: "timestamp \<Rightarrow> Duration \<Rightarrow> timestamp" where
  "Add t d = t + d"

definition After :: "timestamp \<Rightarrow> timestamp \<Rightarrow> bool" where
  "After t u = (t > u)"

text \<open>
  \<^verbatim>\<open>types.Evidence\<close> is an interface; the pool only calls \<^verbatim>\<open>Height()\<close>, \<^verbatim>\<open>Time()\<close> and
  \<^verbatim>\<open>Hash()\<close> on it. A \<^verbatim>\<open>common.Hash\<close> (32 bytes) is read as a big-endian number.
\<close>

record evidence =
  Height :: uint64
  Time :: timestamp
  Hash :: nat

record EvidenceParams =
  MaxAgeNumBlocks :: int
  MaxAgeDuration :: Duration

record ConsensusParams =
  Evidence :: EvidenceParams

record LatestBlockState =
  LastBlockHeight :: uint64
  LastBlockTime :: timestamp
  ConsensusParams :: ConsensusParams

datatype error =
    ErrInvalidEvidence evidence string
  | ErrOther string

datatype panic = Panic uint64 uint64

subsection \<open>The durable store\<close>

text \<open>
  Modelled from the spec: the durable store \<^verbatim>\<open>kaidb.Database\<close>, an interface whose
  implementation is not part of the sources: ordered byte-key/byte-value storage with put,
  delete, has and prefix iteration in ascending key order. The operations whose errors the
  pool only logs (\<^verbatim>\<open>Has\<close>, \<^verbatim>\<open>Delete\<close>, the iterator, and \<^verbatim>\<open>Put\<close> of the committed
  marker) succeed here. The one store error that the pool returns, of \<^verbatim>\<open>Put\<close> in
  \<^verbatim>\<open>addPendingEvidence\<close>, is a branch of \<open>addPendingEvidence\<close>, taken when the
  parameter \<open>PutFails\<close> below says that the store refuses the write. An iterator walks the
  entries present when it was created.

  A key is \<^verbatim>\<open>prefix || %0.16X of the height || "/" || %X of the hash\<close>. The two prefixes
  are \<^verbatim>\<open>"evidence-committed"\<close> and \<^verbatim>\<open>"evidence-pending"\<close>; the fixed-width upper-case
  hexadecimal height makes the lexical order of the keys of one prefix the order of
  (height, hash), which \<open>key_rank\<close> records.
\<close>

datatype prefix = baseKeyCommitted | baseKeyPending

type_synonym key = "prefix \<times> uint64 \<times> nat"
type_synonym database = "(key \<times> bytes) list"

fun prefix_rank :: "prefix \<Rightarrow> nat" where
  "prefix_rank baseKeyCommitted = 0"
| "prefix_rank baseKeyPending = 1"

definition key_rank :: "key \<Rightarrow> nat \<times> nat \<times> nat" where
  "key_rank k = (case k of (p, h, x) \<Rightarrow> (prefix_rank p, unat h, x))"

definition Has :: "database \<Rightarrow> key \<Rightarrow> bool" where
  "Has db k = (k \<in> set (map fst db))"

definition Put :: "database \<Rightarrow> key \<Rightarrow> bytes \<Rightarrow> database" where
  "Put db k v = (k, v) # filter (\<lambda>e. fst e \<noteq> k) db"

definition Delete :: "database \<Rightarrow> key \<Rightarrow> database" where
  "Delete db k = filter (\<lambda>e. fst e \<noteq> k) db"

definition NewIterator :: "database \<Rightarrow> prefix \<Rightarrow> (key \<times> bytes) list" where
  "NewIterator db p = sort_key (\<lambda>e. key_rank (fst e)) (filter (\<lambda>e. fst (fst e) = p) db)"

definition keySuffix :: "evidence \<Rightarrow> uint64 \<times> nat" where
  "keySuffix ev = (Height ev, Hash ev)"

definition keyCommitted :: "evidence \<Rightarrow> key" where
  "keyCommitted ev = (baseKeyCommitted, keySuffix ev)"

definition keyPending :: "evidence \<Rightarrow> key" where
  "keyPending ev = (baseKeyPending, keySuffix ev)"

definition evMapKey :: "evidence \<Rightarrow> nat" where
  "evMapKey ev = Hash ev"

subsection \<open>The pool and what it is given\<close>

text \<open>
  Modelled from the spec: the concurrent list \<^verbatim>\<open>clist.CList\<close>, whose code is not part
  of the sources: an ordered sequence with append at the back and removal of an element.
  \<open>evidenceList\<close> is its content read front to back. \<open>evidenceSize\<close> is the atomic
  \<^verbatim>\<open>uint32\<close> counter.
\<close>

record Pool =
  evidenceList :: "evidence list"
  evidenceSize :: uint32
  evidenceDB :: database
  state :: LatestBlockState
  pruningHeight :: uint64
  pruningTime :: timestamp

text \<open>
  The functions the pool calls and whose code is outside the sources are parameters:
  \<^verbatim>\<open>evpool.verify\<close> (which reads the pool), the protobuf conversions
  \<^verbatim>\<open>types.EvidenceToProto\<close>, \<^verbatim>\<open>Marshal\<close>, \<^verbatim>\<open>Unmarshal\<close>, \<^verbatim>\<open>types.EvidenceFromProto\<close>,
  the size \<^verbatim>\<open>EvidenceData.Size()\<close> of a list of protobuf messages, and \<^verbatim>\<open>proto.Marshal\<close>
  of a \<^verbatim>\<open>UInt64Value\<close>. \<open>'p\<close> is the protobuf message \<^verbatim>\<open>kproto.Evidence\<close>. A result
  \<open>None\<close> of a conversion is its error; \<open>Some reason\<close> of \<open>verify\<close> is its error.
  \<open>PutFails db key value\<close> says that \<^verbatim>\<open>evidenceDB.Put(key, value)\<close> returns an error on
  the store \<open>db\<close> and writes nothing.
\<close>

record 'p env =
  verify :: "Pool \<Rightarrow> evidence \<Rightarrow> string option"
  EvidenceToProto :: "evidence \<Rightarrow> 'p option"
  Marshal :: "'p \<Rightarrow> bytes option"
  Unmarshal :: "bytes \<Rightarrow> 'p option"
  EvidenceFromProto :: "'p \<Rightarrow> evidence option"
  EvidenceData_Size :: "'p list \<Rightarrow> int"
  MarshalUInt64 :: "uint64 \<Rightarrow> bytes option"
  PutFails :: "database \<Rightarrow> key \<Rightarrow> bytes \<Rightarrow> bool"

subsection \<open>The methods of the pool\<close>

definition Size :: "Pool \<Rightarrow> uint32" where
  "Size evpool = evidenceSize evpool"

definition State :: "Pool \<Rightarrow> LatestBlockState" where
  "State evpool = state evpool"

definition updateState :: "Pool \<Rightarrow> LatestBlockState \<Rightarrow> Pool" where
  "updateState evpool st = evpool\<lparr>state := st\<rparr>"

definition isExpired :: "Pool \<Rightarrow> uint64 \<Rightarrow> timestamp \<Rightarrow> bool" where
  "isExpired evpool height time =
     (let params = Evidence (ConsensusParams (State evpool));
          ageDuration = Sub (LastBlockTime (State evpool)) time;
          ageNumBlocks = LastBlockHeight (State evpool) - height
      in ageNumBlocks > word_of_int (MaxAgeNumBlocks params) \<and>
         ageDuration > MaxAgeDuration params)"

definition isPending :: "Pool \<Rightarrow> evidence \<Rightarrow> bool" where
  "isPending evpool ev = Has (evidenceDB evpool) (keyPending ev)"

definition isCommitted :: "Pool \<Rightarrow> evidence \<Rightarrow> bool" where
  "isCommitted evpool ev = Has (evidenceDB evpool) (keyCommitted ev)"

definition fastCheck :: "Pool \<Rightarrow> evidence \<Rightarrow> bool" where
  "fastCheck evpool ev = isPending evpool ev"

definition removeEvidenceFromList :: "Pool \<Rightarrow> nat set \<Rightarrow> Pool" where
  "removeEvidenceFromList evpool blockEvidenceMap =
     evpool\<lparr>evidenceList := filter (\<lambda>ev. evMapKey ev \<notin> blockEvidenceMap) (evidenceList evpool)\<rparr>"

text \<open>\<^verbatim>\<open>atomic.AddUint32(&evpool.evidenceSize, ^uint32(0))\<close> adds \<open>2^32 - 1\<close>.\<close>

definition removePendingEvidence :: "Pool \<Rightarrow> evidence \<Rightarrow> Pool" where
  "removePendingEvidence evpool ev =
     evpool\<lparr>evidenceDB := Delete (evidenceDB evpool) (keyPending ev),
            evidenceSize := evidenceSize evpool + (- 1)\<rparr>"

definition addPendingEvidence :: "'p env \<Rightarrow> Pool \<Rightarrow> evidence \<Rightarrow> error option \<times> Pool" where
  "addPendingEvidence E evpool ev =
     (case EvidenceToProto E ev of
        None \<Rightarrow> (Some (ErrOther ''unable to convert to proto''), evpool)
      | Some evpb \<Rightarrow>
          (case Marshal E evpb of
             None \<Rightarrow> (Some (ErrOther ''unable to marshal evidence''), evpool)
           | Some evBytes \<Rightarrow>
               if PutFails E (evidenceDB evpool) (keyPending ev) evBytes
               then (Some (ErrOther ''can't persist evidence''), evpool)
               else (None, evpool\<lparr>evidenceDB := Put (evidenceDB evpool) (keyPending ev) evBytes,
                                  evidenceSize := evidenceSize evpool + 1\<rparr>)))"

definition bytesToEv :: "'p env \<Rightarrow> bytes \<Rightarrow> evidence option" where
  "bytesToEv E evBytes =
     (case Unmarshal E evBytes of
        None \<Rightarrow> None
      | Some evpb \<Rightarrow> EvidenceFromProto E evpb)"

text \<open>
  The loop of \<^verbatim>\<open>markEvidenceAsCommitted\<close> over the evidence of the block; the second
  argument is \<^verbatim>\<open>blockEvidenceMap\<close>.
\<close>

fun markLoop :: "'p env \<Rightarrow> Pool \<Rightarrow> nat set \<Rightarrow> evidence list \<Rightarrow> Pool \<times> nat set" where
  "markLoop E evpool m [] = (evpool, m)"
| "markLoop E evpool m (ev # rest) =
     (let (p1, m1) = (if isPending evpool ev
                      then (removePendingEvidence evpool ev, insert (evMapKey ev) m)
                      else (evpool, m))
      in case MarshalUInt64 E (Height ev) of
           None \<Rightarrow> markLoop E p1 m1 rest
         | Some evBytes \<Rightarrow>
             markLoop E (p1\<lparr>evidenceDB := Put (evidenceDB p1) (keyCommitted ev) evBytes\<rparr>) m1 rest)"

definition markEvidenceAsCommitted :: "'p env \<Rightarrow> Pool \<Rightarrow> evidence list \<Rightarrow> Pool" where
  "markEvidenceAsCommitted E evpool evs =
     (let (p1, m) = markLoop E evpool {} evs
      in if m \<noteq> {} then removeEvidenceFromList p1 m else p1)"

text \<open>
  The loop of \<^verbatim>\<open>listEvidence\<close> over the values of the iterator, with the variables
  \<^verbatim>\<open>evidence\<close>, \<^verbatim>\<open>evList.Evidence\<close> and \<^verbatim>\<open>totalSize\<close>. The result is the triple that
  the Go function returns.
\<close>

fun listLoop :: "'p env \<Rightarrow> int \<Rightarrow> bytes list \<Rightarrow> evidence list \<Rightarrow> 'p list \<Rightarrow> int
                 \<Rightarrow> evidence list \<times> int \<times> error option" where
  "listLoop E maxBytes [] evs evList totalSize = (evs, totalSize, None)"
| "listLoop E maxBytes (v # rest) evs evList totalSize =
     (case Unmarshal E v of
        None \<Rightarrow> (evs, totalSize, Some (ErrOther ''unmarshal''))
      | Some evp \<Rightarrow>
          (let evList' = evList @ [evp];
               evSize = EvidenceData_Size E evList'
           in if maxBytes \<noteq> - 1 \<and> evSize > maxBytes then (evs, totalSize, None)
              else (case EvidenceFromProto E evp of
                      None \<Rightarrow> ([], totalSize, Some (ErrOther ''evidence from proto''))
                    | Some ev \<Rightarrow> listLoop E maxBytes rest (evs @ [ev]) evList' evSize)))"

definition listEvidence :: "'p env \<Rightarrow> Pool \<Rightarrow> prefix \<Rightarrow> int \<Rightarrow> evidence list \<times> int \<times> error option" where
  "listEvidence E evpool prefixKey maxBytes =
     listLoop E maxBytes (map snd (NewIterator (evidenceDB evpool) prefixKey)) [] [] 0"

text \<open>
  The loop of \<^verbatim>\<open>removeExpiredPendingEvidence\<close>; the third argument is
  \<^verbatim>\<open>blockEvidenceMap\<close>. The result is the returned watermark and the pool.
\<close>

fun pruneLoop :: "'p env \<Rightarrow> Pool \<Rightarrow> nat set \<Rightarrow> bytes list \<Rightarrow> (uint64 \<times> timestamp) \<times> Pool" where
  "pruneLoop E evpool m [] =
     (let p1 = (if m \<noteq> {} then removeEvidenceFromList evpool m else evpool)
      in ((LastBlockHeight (State p1), LastBlockTime (State p1)), p1))"
| "pruneLoop E evpool m (v # rest) =
     (case bytesToEv E v of
        None \<Rightarrow> pruneLoop E evpool m rest
      | Some ev \<Rightarrow>
          if \<not> isExpired evpool (Height ev) (Time ev)
          then (let p1 = (if m \<noteq> {} then removeEvidenceFromList evpool m else evpool);
                    maxAgeNumBlocks = MaxAgeNumBlocks (Evidence (ConsensusParams (State p1)))
                in ((Height ev + word_of_int maxAgeNumBlocks + 1,
                     Add (Add (Time ev) (MaxAgeDuration (Evidence (ConsensusParams (State p1))))) Second),
                    p1))
          else pruneLoop E (removePendingEvidence evpool ev) (insert (evMapKey ev) m) rest)"

definition removeExpiredPendingEvidence :: "'p env \<Rightarrow> Pool \<Rightarrow> (uint64 \<times> timestamp) \<times> Pool" where
  "removeExpiredPendingEvidence E evpool =
     pruneLoop E evpool {} (map snd (NewIterator (evidenceDB evpool) baseKeyPending))"

text \<open>
  \<^verbatim>\<open>NewPool\<close>: \<open>st\<close> is \<^verbatim>\<open>stateDB.Load()\<close>; the fields not set by the composite
  literal are zero.
\<close>

definition NewPool :: "'p env \<Rightarrow> LatestBlockState \<Rightarrow> database \<Rightarrow> error + Pool" where
  "NewPool E st db =
     (let evpool = \<lparr>evidenceList = [], evidenceSize = 0, evidenceDB = db, state = st,
                    pruningHeight = 0, pruningTime = 0\<rparr>;
          (w, p1) = removeExpiredPendingEvidence E evpool;
          p2 = p1\<lparr>pruningHeight := fst w, pruningTime := snd w\<rparr>;
          (evList, sz, err) = listEvidence E p2 baseKeyPending (- 1)
      in case err of
           Some e \<Rightarrow> Inl e
         | None \<Rightarrow> Inr (p2\<lparr>evidenceSize := of_nat (length evList),
                            evidenceList := evidenceList p2 @ evList\<rparr>))"

definition PendingEvidence :: "'p env \<Rightarrow> Pool \<Rightarrow> int \<Rightarrow> evidence list \<times> int" where
  "PendingEvidence E evpool maxBytes =
     (if Size evpool = 0 then ([], 0)
      else (let (evs, sz, err) = listEvidence E evpool baseKeyPending maxBytes
            in (evs, sz)))"

definition Update :: "'p env \<Rightarrow> Pool \<Rightarrow> LatestBlockState \<Rightarrow> evidence list \<Rightarrow> panic + Pool" where
  "Update E evpool st ev =
     (if LastBlockHeight st \<le> LastBlockHeight (state evpool)
      then Inl (Panic (LastBlockHeight st) (LastBlockHeight (state evpool)))
      else (let p1 = updateState evpool st;
                p2 = markEvidenceAsCommitted E p1 ev
            in if Size p2 > 0 \<and> LastBlockHeight st > pruningHeight p2 \<and>
                  After (LastBlockTime st) (pruningTime p2)
               then (let (w, p3) = removeExpiredPendingEvidence E p2
                     in Inr (p3\<lparr>pruningHeight := fst w, pruningTime := snd w\<rparr>))
               else Inr p2))"

definition AddEvidence :: "'p env \<Rightarrow> Pool \<Rightarrow> evidence \<Rightarrow> error option \<times> Pool" where
  "AddEvidence E evpool ev =
     (if isPending evpool ev then (None, evpool)
      else if isCommitted evpool ev then (None, evpool)
      else (case verify E evpool ev of
              Some reason \<Rightarrow> (Some (ErrInvalidEvidence ev reason), evpool)
            | None \<Rightarrow>
                (case addPendingEvidence E evpool ev of
                   (Some err, p1) \<Rightarrow> (Some (ErrOther ''can't add evidence to pending list''), p1)
                 | (None, p1) \<Rightarrow> (None, p1\<lparr>evidenceList := evidenceList p1 @ [ev]\<rparr>))))"

definition AddEvidenceFromConsensus :: "'p env \<Rightarrow> Pool \<Rightarrow> evidence \<Rightarrow> error option \<times> Pool" where
  "AddEvidenceFromConsensus E evpool ev =
     (if isPending evpool ev then (None, evpool)
      else (case addPendingEvidence E evpool ev of
              (Some err, p1) \<Rightarrow> (Some (ErrOther ''can't add evidence to pending list''), p1)
            | (None, p1) \<Rightarrow> (None, p1\<lparr>evidenceList := evidenceList p1 @ [ev]\<rparr>)))"

text \<open>
  The loop of \<^verbatim>\<open>CheckEvidence\<close>; \<open>hashes\<close> holds \<^verbatim>\<open>hashes[0..idx-1]\<close>, and the inner
  loop from \<^verbatim>\<open>idx - 1\<close> down to \<^verbatim>\<open>0\<close> finds an equal hash exactly when the hash is in it.
\<close>

fun checkLoop :: "'p env \<Rightarrow> Pool \<Rightarrow> nat list \<Rightarrow> evidence list \<Rightarrow> error option \<times> Pool" where
  "checkLoop E evpool hashes [] = (None, evpool)"
| "checkLoop E evpool hashes (ev # rest) =
     (let r = (if \<not> fastCheck evpool ev
               then (if isCommitted evpool ev
                     then (Some (ErrInvalidEvidence ev ''evidence was already committed''), evpool)
                     else (case verify E evpool ev of
                             Some reason \<Rightarrow> (Some (ErrInvalidEvidence ev reason), evpool)
                           | None \<Rightarrow>
                               (case addPendingEvidence E evpool ev of
                                  (Some err, p1) \<Rightarrow> (None, p1)
                                | (None, p1) \<Rightarrow> (None, p1))))
               else (None, evpool))
      in case r of
           (Some e, p1) \<Rightarrow> (Some e, p1)
         | (None, p1) \<Rightarrow>
             if Hash ev \<in> set hashes
             then (Some (ErrInvalidEvidence ev ''duplicate evidence''), p1)
             else checkLoop E p1 (hashes @ [Hash ev]) rest)"

definition CheckEvidence :: "'p env \<Rightarrow> Pool \<Rightarrow> evidence list \<Rightarrow> error option \<times> Pool" where
  "CheckEvidence E evpool evList = checkLoop E evpool [] evList"

subsection \<open>A concrete pool\<close>

text \<open>
  An instance of the parameters, for evaluating the methods: verification accepts
  everything, a record is stored as three bytes (height, time, hash) and any other byte
  string fails to unmarshal, every message counts ten bytes in a list, and the store
  refuses no write.
\<close>

definition exEnv :: "evidence env" where
  "exEnv = \<lparr>verify = (\<lambda>p ev. None),
     EvidenceToProto = Some,
     Marshal = (\<lambda>ev. Some [ucast (Height ev), word_of_int (Time ev), of_nat (Hash ev)]),
     Unmarshal = (\<lambda>bs. case bs of
                    [h, t, x] \<Rightarrow> Some \<lparr>Height = ucast h, Time = uint t, Hash = unat x\<rparr>
                  | _ \<Rightarrow> None),
     EvidenceFromProto = Some,
     EvidenceData_Size = (\<lambda>ps. 10 * int (length ps)),
     MarshalUInt64 = (\<lambda>h. Some [ucast h]),
     PutFails = (\<lambda>db k v. False)\<rparr>"

text \<open>Chain states with \<^verbatim>\<open>MaxAgeNumBlocks = 10\<close> and \<^verbatim>\<open>MaxAgeDuration = 100\<close>.\<close>

definition exState :: "uint64 \<Rightarrow> timestamp \<Rightarrow> LatestBlockState" where
  "exState h t = \<lparr>LastBlockHeight = h, LastBlockTime = t,
     ConsensusParams = \<lparr>Evidence = \<lparr>MaxAgeNumBlocks = 10, MaxAgeDuration = 100\<rparr>\<rparr>\<rparr>"

definition exEv :: "uint64 \<Rightarrow> timestamp \<Rightarrow> nat \<Rightarrow> evidence" where
  "exEv h t x = \<lparr>Height = h, Time = t, Hash = x\<rparr>"

text \<open>The pool that \<open>NewPool\<close> builds on an empty store at height 100 and time 200.\<close>

definition exPool :: Pool where
  "exPool = \<lparr>evidenceList = [], evidenceSize = 0, evidenceDB = [], state = exState 100 200,
     pruningHeight = 100, pruningTime = 200\<rparr>"

subsection \<open>Notions used to state the properties\<close>

text \<open>
  A record is expired when \<open>isExpired\<close> holds of its height and time. The records of a
  pool are what a scan of the pending prefix decodes, in the order of the iterator.
\<close>

definition expired :: "Pool \<Rightarrow> evidence \<Rightarrow> bool" where
  "expired evpool ev = isExpired evpool (Height ev) (Time ev)"

definition pendingRecords :: "'p env \<Rightarrow> Pool \<Rightarrow> evidence list" where
  "pendingRecords E evpool =
     List.map_filter (bytesToEv E) (map snd (NewIterator (evidenceDB evpool) baseKeyPending))"

text \<open>
  The two prefixes of a store are disjoint when no pending entry has a committed entry with
  the same height and hash.
\<close>

definition disjointNamespaces :: "database \<Rightarrow> bool" where
  "disjointNamespaces db =
     (\<forall>e \<in> set db. fst (fst e) = baseKeyPending \<longrightarrow> \<not> Has db (baseKeyCommitted, snd (fst e)))"

text \<open>
  The store is well keyed when keys are unique and every pending entry that decodes lies
  under the pending key of the evidence it decodes to, as \<open>addPendingEvidence\<close> stores it.
\<close>

definition pendingWellKeyed :: "'p env \<Rightarrow> database \<Rightarrow> bool" where
  "pendingWellKeyed E db =
     (distinct (map fst db) \<and>
      (\<forall>e \<in> set db. fst (fst e) = baseKeyPending \<longrightarrow>
         (case bytesToEv E (snd e) of None \<Rightarrow> True | Some ev \<Rightarrow> keyPending ev = fst e)))"

text \<open>
  A pool at height 100 and time 200 with two pending records: one of height 50 and time 50,
  expired, and one of height 95 and time 190, not expired.
\<close>

definition exPool2 :: Pool where
  "exPool2 = \<lparr>evidenceList = [exEv 50 50 1, exEv 95 190 2], evidenceSize = 2,
     evidenceDB = [((baseKeyPending, 95, 2), [95, 190, 2]), ((baseKeyPending, 50, 1), [50, 50, 1])],
     state = exState 100 200, pruningHeight = 100, pruningTime = 200\<rparr>"

text \<open>
  The pool \<open>exPool\<close> after \<open>AddEvidence\<close> of a record of height 50 and time 190: old in
  blocks and young in time.
\<close>

definition exPool3 :: Pool where
  "exPool3 = \<lparr>evidenceList = [exEv 50 190 1], evidenceSize = 1,
     evidenceDB = [((baseKeyPending, 50, 1), [50, 190, 1])],
     state = exState 100 200, pruningHeight = 100, pruningTime = 200\<rparr>"

text \<open>
  The pool \<open>exPool\<close> after \<open>Update\<close> to height 101 with a block that holds one piece of
  evidence, of height 101 and hash 7: the evidence is committed and not pending.
\<close>

definition exPoolCommitted :: Pool where
  "exPoolCommitted = \<lparr>evidenceList = [], evidenceSize = 0,
     evidenceDB = [((baseKeyCommitted, 101, 7), [101])],
     state = exState 101 201, pruningHeight = 100, pruningTime = 200\<rparr>"

text \<open>
  A store whose first pending entry does not unmarshal and whose second does.
\<close>

definition exDbCorrupt :: database where
  "exDbCorrupt = [((baseKeyPending, 50, 1), [0]), ((baseKeyPending, 95, 2), [95, 190, 2])]"

section \<open>Properties\<close>

subsection \<open>The chain state is only replaced by \<open>updateState\<close>\<close>

lemma state_removePendingEvidence [simp]: "state (removePendingEvidence p ev) = state p"
  by (simp add: removePendingEvidence_def)

lemma state_removeEvidenceFromList [simp]: "state (removeEvidenceFromList p m) = state p"
  by (simp add: removeEvidenceFromList_def)

lemma isExpired_state_cong: "state p = state q \<Longrightarrow> isExpired p h t = isExpired q h t"
  by (simp add: isExpired_def State_def)

lemma state_markLoop: "state (fst (markLoop E p m evs)) = state p"
proof (induction evs arbitrary: p m)
  case Nil
  show ?case by simp
next
  case (Cons ev rest)
  show ?case
    by (simp add: Cons.IH split: option.split)
qed

lemma state_markEvidenceAsCommitted [simp]: "state (markEvidenceAsCommitted E p evs) = state p"
proof (cases "markLoop E p {} evs")
  case (Pair p1 m)
  with state_markLoop [of E p "{}" evs] show ?thesis
    by (simp add: markEvidenceAsCommitted_def)
qed

lemma state_pruneLoop: "state (snd (pruneLoop E p m vs)) = state p"
proof (induction vs arbitrary: p m)
  case Nil
  show ?case by (simp add: Let_def)
next
  case (Cons v rest)
  show ?case
    by (simp add: Cons.IH Let_def split: option.split)
qed

lemma state_removeExpiredPendingEvidence:
  "state (snd (removeExpiredPendingEvidence E p)) = state p"
  by (simp add: removeExpiredPendingEvidence_def state_pruneLoop)

subsection \<open>Update\<close>

text \<open>
  C7. \<open>Update\<close> panics exactly when the height of the new state is at most the height of
  the state the pool holds; when the new height is strictly greater it returns a pool, and
  the state of that pool is the new state.
\<close>

theorem Update_panics_iff:
  "((\<exists>m. Update E evpool st ev = Inl m) \<longleftrightarrow>
      LastBlockHeight st \<le> LastBlockHeight (state evpool)) \<and>
   (LastBlockHeight (state evpool) < LastBlockHeight st \<longrightarrow>
      (\<exists>p. Update E evpool st ev = Inr p \<and> state p = st))"
proof (cases "removeExpiredPendingEvidence E (markEvidenceAsCommitted E (updateState evpool st) ev)")
  case (Pair w p3)
  with state_removeExpiredPendingEvidence [of E "markEvidenceAsCommitted E (updateState evpool st) ev"]
  have "state p3 = st" by (simp add: updateState_def)
  with Pair show ?thesis
    by (auto simp: Update_def Let_def updateState_def)
qed

theorem Update_panics_iff_witness:
  "(\<exists>m. Update exEnv exPool (exState 100 300) [] = Inl m) \<and>
   LastBlockHeight (state exPool) < LastBlockHeight (exState 101 300) \<and>
   (\<exists>p. Update exEnv exPool (exState 101 300) [] = Inr p \<and> state p = exState 101 300)"
  using Update_panics_iff [of exEnv exPool "exState 100 300" "[]"]
    Update_panics_iff [of exEnv exPool "exState 101 300" "[]"]
  by (simp add: exPool_def exState_def)

subsection \<open>Expiry of evidence above the chain height\<close>

lemma unat_sub_future:
  fixes H h :: uint64
  assumes "H < h"
  shows "unat (H - h) = 2 ^ 64 - (unat h - unat H)"
  using assms by (simp add: unat_sub_if' word_less_nat_alt)

text \<open>
  C10 (as amended). The block age is the 64-bit unsigned difference of the last block height
  and the height of the evidence. For evidence above the last block height it is
  \<open>2^64 - (h - H)\<close>; the evidence is expired exactly when that value exceeds
  \<^verbatim>\<open>uint64(MaxAgeNumBlocks)\<close> and the duration condition holds; so when
  \<open>h - H + uint64(MaxAgeNumBlocks) < 2^64\<close> it is expired exactly when the duration
  condition holds.
\<close>

theorem isExpired_future_height:
  "LastBlockHeight (state evpool) < h \<longrightarrow>
     unat (LastBlockHeight (state evpool) - h) = 2 ^ 64 - (unat h - unat (LastBlockHeight (state evpool))) \<and>
     (isExpired evpool h t \<longleftrightarrow>
        unat (word_of_int (MaxAgeNumBlocks (Evidence (ConsensusParams (state evpool)))) :: uint64)
          < 2 ^ 64 - (unat h - unat (LastBlockHeight (state evpool))) \<and>
        MaxAgeDuration (Evidence (ConsensusParams (state evpool))) < Sub (LastBlockTime (state evpool)) t) \<and>
     (unat h - unat (LastBlockHeight (state evpool))
        + unat (word_of_int (MaxAgeNumBlocks (Evidence (ConsensusParams (state evpool)))) :: uint64) < 2 ^ 64 \<longrightarrow>
      (isExpired evpool h t \<longleftrightarrow>
        MaxAgeDuration (Evidence (ConsensusParams (state evpool))) < Sub (LastBlockTime (state evpool)) t))"
proof (intro impI)
  assume lt: "LastBlockHeight (state evpool) < h"
  let ?H = "LastBlockHeight (state evpool)"
  let ?B = "word_of_int (MaxAgeNumBlocks (Evidence (ConsensusParams (state evpool)))) :: uint64"
  let ?dur = "MaxAgeDuration (Evidence (ConsensusParams (state evpool))) < Sub (LastBlockTime (state evpool)) t"
  have age: "unat (?H - h) = 2 ^ 64 - (unat h - unat ?H)"
    using lt by (rule unat_sub_future)
  have ex: "isExpired evpool h t \<longleftrightarrow> (unat ?B < unat (?H - h) \<and> ?dur)"
    by (simp add: isExpired_def State_def Let_def word_less_nat_alt)
  have gap: "0 < unat h - unat ?H"
    using lt by (simp add: word_less_nat_alt)
  show "unat (?H - h) = 2 ^ 64 - (unat h - unat ?H) \<and>
     (isExpired evpool h t \<longleftrightarrow> unat ?B < 2 ^ 64 - (unat h - unat ?H) \<and> ?dur) \<and>
     (unat h - unat ?H + unat ?B < 2 ^ 64 \<longrightarrow> (isExpired evpool h t \<longleftrightarrow> ?dur))"
    using age ex by auto
qed

text \<open>
  Without the bound the statement fails: at last block height 0 the evidence of height
  \<open>2^64 - 1\<close> has block age 1, which does not exceed \<^verbatim>\<open>MaxAgeNumBlocks = 10\<close>, so it
  is not expired although it is older than \<^verbatim>\<open>MaxAgeDuration\<close>.
\<close>

theorem isExpired_future_height_counterexample:
  "LastBlockHeight (state (exPool\<lparr>state := exState 0 1000\<rparr>)) < 18446744073709551615 \<and>
   MaxAgeDuration (Evidence (ConsensusParams (state (exPool\<lparr>state := exState 0 1000\<rparr>))))
     < Sub (LastBlockTime (state (exPool\<lparr>state := exState 0 1000\<rparr>))) 0 \<and>
   \<not> isExpired (exPool\<lparr>state := exState 0 1000\<rparr>) 18446744073709551615 0"
  by (simp add: isExpired_def State_def exPool_def exState_def Sub_def maxDuration_def minDuration_def)

theorem isExpired_future_height_witness:
  "LastBlockHeight (state exPool) < 150 \<and>
   unat (150 :: uint64) - unat (LastBlockHeight (state exPool))
     + unat (word_of_int (MaxAgeNumBlocks (Evidence (ConsensusParams (state exPool)))) :: uint64) < 2 ^ 64 \<and>
   isExpired exPool 150 50 \<and> \<not> isExpired exPool 150 150"
  using isExpired_future_height [of exPool 150 50] isExpired_future_height [of exPool 150 150]
  by (simp add: exPool_def exState_def Sub_def maxDuration_def minDuration_def)

subsection \<open>AddEvidence\<close>

text \<open>
  C2 (as amended). \<open>AddEvidence\<close> returns no error and the same pool when the evidence is
  pending or committed. Otherwise it returns an \<open>ErrInvalidEvidence\<close> exactly when
  verification fails, and then the pool is unchanged. When verification succeeds, the
  evidence converts and marshals, and the store accepts the write, it returns no error and
  the pool with the bytes stored under the pending key, the evidence appended to the list
  and the size incremented. When verification succeeds and the conversion, the marshalling
  or the write to the store fails, it returns another error and the same pool.
\<close>

theorem AddEvidence_cases:
  "(isPending evpool ev \<or> isCommitted evpool ev \<longrightarrow> AddEvidence E evpool ev = (None, evpool)) \<and>
   (\<not> isPending evpool ev \<and> \<not> isCommitted evpool ev \<longrightarrow>
      ((\<exists>r. fst (AddEvidence E evpool ev) = Some (ErrInvalidEvidence ev r)) \<longleftrightarrow> verify E evpool ev \<noteq> None) \<and>
      (verify E evpool ev \<noteq> None \<longrightarrow> snd (AddEvidence E evpool ev) = evpool) \<and>
      (verify E evpool ev = None \<longrightarrow>
         (case Option.bind (EvidenceToProto E ev) (Marshal E) of
            None \<Rightarrow> AddEvidence E evpool ev = (Some (ErrOther ''can't add evidence to pending list''), evpool)
          | Some evBytes \<Rightarrow>
              if PutFails E (evidenceDB evpool) (keyPending ev) evBytes
              then AddEvidence E evpool ev
                     = (Some (ErrOther ''can't add evidence to pending list''), evpool)
              else AddEvidence E evpool ev =
                (None, evpool\<lparr>evidenceList := evidenceList evpool @ [ev],
                              evidenceSize := evidenceSize evpool + 1,
                              evidenceDB := Put (evidenceDB evpool) (keyPending ev) evBytes\<rparr>))))"
  by (auto simp: AddEvidence_def addPendingEvidence_def split: option.splits)

text \<open>
  Without the condition on persisting the statement fails: when the store refuses the
  write, evidence that is neither pending nor committed, passes verification, converts and
  marshals is not stored, and the error returned is not an \<open>ErrInvalidEvidence\<close>.
\<close>

theorem AddEvidence_cases_counterexample:
  "\<not> isPending exPool (exEv 95 190 1) \<and> \<not> isCommitted exPool (exEv 95 190 1) \<and>
   verify (exEnv\<lparr>PutFails := \<lambda>db k v. True\<rparr>) exPool (exEv 95 190 1) = None \<and>
   Option.bind (EvidenceToProto (exEnv\<lparr>PutFails := \<lambda>db k v. True\<rparr>) (exEv 95 190 1))
     (Marshal (exEnv\<lparr>PutFails := \<lambda>db k v. True\<rparr>)) = Some [95, 190, 1] \<and>
   AddEvidence (exEnv\<lparr>PutFails := \<lambda>db k v. True\<rparr>) exPool (exEv 95 190 1)
     = (Some (ErrOther ''can't add evidence to pending list''), exPool)"
  by (simp add: AddEvidence_def addPendingEvidence_def isPending_def isCommitted_def Has_def
      exPool_def exEnv_def exEv_def)

theorem AddEvidence_cases_witness:
  "\<not> isPending exPool (exEv 95 190 1) \<and> \<not> isCommitted exPool (exEv 95 190 1) \<and>
   verify exEnv exPool (exEv 95 190 1) = None \<and>
   AddEvidence exEnv exPool (exEv 95 190 1) =
     (None, exPool\<lparr>evidenceList := [exEv 95 190 1], evidenceSize := 1,
                   evidenceDB := [(keyPending (exEv 95 190 1), [95, 190, 1])]\<rparr>) \<and>
   isPending (snd (AddEvidence exEnv exPool (exEv 95 190 1))) (exEv 95 190 1) \<and>
   AddEvidence exEnv (snd (AddEvidence exEnv exPool (exEv 95 190 1))) (exEv 95 190 1)
     = (None, snd (AddEvidence exEnv exPool (exEv 95 190 1)))"
  using AddEvidence_cases [of exPool "exEv 95 190 1" exEnv]
    AddEvidence_cases [of "snd (AddEvidence exEnv exPool (exEv 95 190 1))" "exEv 95 190 1" exEnv]
  by (simp add: isPending_def isCommitted_def Has_def Put_def keyPending_def keySuffix_def
      exPool_def exEnv_def exEv_def)

subsection \<open>The pruning pass\<close>

lemma expired_state_cong: "state p = state q \<Longrightarrow> expired p = expired q"
  by (rule ext) (simp add: expired_def isExpired_def State_def)

lemma pruneLoop_eq:
  "pruneLoop E p m vs =
     ((case dropWhile (expired p) (List.map_filter (bytesToEv E) vs) of
         [] \<Rightarrow> (LastBlockHeight (state p), LastBlockTime (state p))
       | ev # rest \<Rightarrow>
           (Height ev + word_of_int (MaxAgeNumBlocks (Evidence (ConsensusParams (state p)))) + 1,
            Time ev + MaxAgeDuration (Evidence (ConsensusParams (state p))) + Second)),
      p\<lparr>evidenceList :=
           filter (\<lambda>ev. evMapKey ev \<notin> m \<union> evMapKey ` set (takeWhile (expired p) (List.map_filter (bytesToEv E) vs)))
             (evidenceList p),
         evidenceSize :=
           evidenceSize p - of_nat (length (takeWhile (expired p) (List.map_filter (bytesToEv E) vs))),
         evidenceDB :=
           filter (\<lambda>e. fst e \<notin> keyPending ` set (takeWhile (expired p) (List.map_filter (bytesToEv E) vs)))
             (evidenceDB p)\<rparr>)"
proof (induction vs arbitrary: p m)
  case Nil
  show ?case
    by (simp add: Let_def State_def removeEvidenceFromList_def List.map_filter_simps)
next
  case (Cons v rest)
  show ?case
  proof (cases "bytesToEv E v")
    case None
    then show ?thesis
      by (simp add: Cons.IH List.map_filter_simps)
  next
    case (Some ev)
    show ?thesis
    proof (cases "expired p ev")
      case False
      with Some show ?thesis
        by (simp add: Let_def State_def removeEvidenceFromList_def List.map_filter_simps
            expired_def Add_def)
    next
      case True
      have st: "state (removePendingEvidence p ev) = state p" by simp
      have ex: "expired (removePendingEvidence p ev) = expired p"
        by (rule expired_state_cong) simp
      from True have ie: "isExpired p (Height ev) (Time ev)" by (simp add: expired_def)
      let ?gone = "takeWhile (expired p) (List.map_filter (bytesToEv E) rest)"
      have step: "pruneLoop E p m (v # rest)
          = pruneLoop E (removePendingEvidence p ev) (insert (evMapKey ev) m) rest"
        using Some ie by simp
      have mf: "List.map_filter (bytesToEv E) (v # rest) = ev # List.map_filter (bytesToEv E) rest"
        using Some by (simp add: List.map_filter_simps)
      have tw: "takeWhile (expired p) (ev # List.map_filter (bytesToEv E) rest) = ev # ?gone"
        using True by simp
      have dw: "dropWhile (expired p) (ev # List.map_filter (bytesToEv E) rest)
          = dropWhile (expired p) (List.map_filter (bytesToEv E) rest)"
        using True by simp
      have db: "filter (\<lambda>e. fst e \<notin> keyPending ` set ?gone) (Delete (evidenceDB p) (keyPending ev))
          = filter (\<lambda>e. fst e \<notin> keyPending ` set (ev # ?gone)) (evidenceDB p)"
        by (induction "evidenceDB p") (auto simp: Delete_def)
      have db': "filter (\<lambda>e. fst e \<notin> keyPending ` set ?gone) (filter (\<lambda>e. fst e \<noteq> keyPending ev) (evidenceDB p))
          = filter (\<lambda>e. fst e \<notin> keyPending ` set (ev # ?gone)) (evidenceDB p)"
        using db by (simp only: Delete_def)
      have sz: "evidenceSize p + (- 1) - of_nat (length ?gone) = evidenceSize p - of_nat (length (ev # ?gone))"
        by simp
      have un: "insert (evMapKey ev) m \<union> evMapKey ` set ?gone = m \<union> evMapKey ` set (ev # ?gone)"
        by auto
      show ?thesis
        unfolding step Cons.IH mf st ex tw dw un
        by (simp add: removePendingEvidence_def Delete_def db' del: filter_filter set_simps list.set)
    qed
  qed
qed


lemma set_NewIterator: "set (NewIterator db p) = {e \<in> set db. fst (fst e) = p}"
  by (auto simp: NewIterator_def)

lemma removeExpiredPendingEvidence_eq:
  "removeExpiredPendingEvidence E evpool =
     ((case dropWhile (expired evpool) (pendingRecords E evpool) of
         [] \<Rightarrow> (LastBlockHeight (state evpool), LastBlockTime (state evpool))
       | ev # rest \<Rightarrow>
           (Height ev + word_of_int (MaxAgeNumBlocks (Evidence (ConsensusParams (state evpool)))) + 1,
            Time ev + MaxAgeDuration (Evidence (ConsensusParams (state evpool))) + Second)),
      evpool\<lparr>evidenceList :=
           filter (\<lambda>ev. evMapKey ev \<notin> evMapKey ` set (takeWhile (expired evpool) (pendingRecords E evpool)))
             (evidenceList evpool),
         evidenceSize :=
           evidenceSize evpool - of_nat (length (takeWhile (expired evpool) (pendingRecords E evpool))),
         evidenceDB :=
           filter (\<lambda>e. fst e \<notin> keyPending ` set (takeWhile (expired evpool) (pendingRecords E evpool)))
             (evidenceDB evpool)\<rparr>)"
  unfolding removeExpiredPendingEvidence_def pruneLoop_eq pendingRecords_def by simp





subsection \<open>Expiry needs both ages\<close>

lemma pruned_evidenceDB:
  "evidenceDB (snd (removeExpiredPendingEvidence E p)) =
     filter (\<lambda>e. fst e \<notin> keyPending ` set (takeWhile (expired p) (pendingRecords E p))) (evidenceDB p)"
  by (simp add: removeExpiredPendingEvidence_eq)

lemma removed_record_source:
  assumes "ev \<in> set (takeWhile (expired p) (pendingRecords E p))"
  shows "expired p ev \<and>
    (\<exists>e \<in> set (evidenceDB p). fst (fst e) = baseKeyPending \<and> bytesToEv E (snd e) = Some ev)"
proof -
  from assms have ex: "expired p ev" and mem: "ev \<in> set (pendingRecords E p)"
    by (auto dest: set_takeWhileD)
  from mem obtain e where "e \<in> set (NewIterator (evidenceDB p) baseKeyPending)"
    and "bytesToEv E (snd e) = Some ev"
    by (auto simp: pendingRecords_def List.map_filter_def)
  then show ?thesis using ex by (auto simp: set_NewIterator)
qed

lemma same_key_same_entry:
  assumes "distinct (map fst db)" and "x \<in> set db" and "y \<in> set db" and "fst x = fst y"
  shows "x = y"
  using assms by (metis distinct_map inj_onD)










subsection \<open>The pruning watermark\<close>

lemma watermark_removePendingEvidence [simp]:
  "pruningHeight (removePendingEvidence p ev) = pruningHeight p"
  "pruningTime (removePendingEvidence p ev) = pruningTime p"
  by (simp_all add: removePendingEvidence_def)

lemma watermark_removeEvidenceFromList [simp]:
  "pruningHeight (removeEvidenceFromList p m) = pruningHeight p"
  "pruningTime (removeEvidenceFromList p m) = pruningTime p"
  by (simp_all add: removeEvidenceFromList_def)

lemma watermark_markLoop:
  "pruningHeight (fst (markLoop E p m evs)) = pruningHeight p \<and>
   pruningTime (fst (markLoop E p m evs)) = pruningTime p"
proof (induction evs arbitrary: p m)
  case Nil
  show ?case by simp
next
  case (Cons ev rest)
  show ?case
    by (simp add: Cons.IH split: option.split)
qed

lemma watermark_markEvidenceAsCommitted [simp]:
  "pruningHeight (markEvidenceAsCommitted E p evs) = pruningHeight p"
  "pruningTime (markEvidenceAsCommitted E p evs) = pruningTime p"
proof -
  obtain p1 m where pm: "markLoop E p {} evs = (p1, m)" by (cases "markLoop E p {} evs")
  with watermark_markLoop [of E p "{}" evs]
  show "pruningHeight (markEvidenceAsCommitted E p evs) = pruningHeight p"
    and "pruningTime (markEvidenceAsCommitted E p evs) = pruningTime p"
    by (simp_all add: markEvidenceAsCommitted_def)
qed

lemma watermark_addPendingEvidence [simp]:
  "pruningHeight (snd (addPendingEvidence E p ev)) = pruningHeight p"
  "pruningTime (snd (addPendingEvidence E p ev)) = pruningTime p"
  by (simp_all add: addPendingEvidence_def split: option.split)

lemma watermark_checkLoop:
  "pruningHeight (snd (checkLoop E p hashes evs)) = pruningHeight p \<and>
   pruningTime (snd (checkLoop E p hashes evs)) = pruningTime p"
proof (induction evs arbitrary: p hashes)
  case Nil
  show ?case by simp
next
  case (Cons ev rest)
  obtain err p1 where ap: "addPendingEvidence E p ev = (err, p1)"
    by (cases "addPendingEvidence E p ev")
  with watermark_addPendingEvidence [of E p ev]
  have p1: "pruningHeight p1 = pruningHeight p" "pruningTime p1 = pruningTime p" by simp_all
  show ?case
    using ap p1 by (simp add: Cons.IH Let_def split: option.split)
qed

lemma Update_Inr:
  assumes "Update E evpool st evs = Inr p'"
  shows "p' = (let q = markEvidenceAsCommitted E (updateState evpool st) evs in
               if Size q > 0 \<and> LastBlockHeight st > pruningHeight evpool \<and>
                  LastBlockTime st > pruningTime evpool
               then (snd (removeExpiredPendingEvidence E q))
                      \<lparr>pruningHeight := fst (fst (removeExpiredPendingEvidence E q)),
                       pruningTime := snd (fst (removeExpiredPendingEvidence E q))\<rparr>
               else q)"
  using assms
  by (auto simp: Update_def Let_def After_def updateState_def split: if_splits prod.splits)

text \<open>
  C5 (as amended). \<open>AddEvidence\<close>, \<open>AddEvidenceFromConsensus\<close> and \<open>CheckEvidence\<close> leave the
  watermark as it is. \<open>Update\<close> either leaves it as it is, or the height and the time of
  the new state are both strictly beyond it and a pruning pass replaces it: by the height
  and time of the new state when no record survives the pass, and otherwise by the expiry
  point of the first surviving record, which can lie below the watermark it replaces.
\<close>

theorem Update_watermark:
  "(Update E evpool st evs = Inr p' \<longrightarrow>
      (pruningHeight p' = pruningHeight evpool \<and> pruningTime p' = pruningTime evpool) \<or>
      (pruningHeight evpool < LastBlockHeight st \<and> pruningTime evpool < LastBlockTime st \<and>
       (pruningHeight p', pruningTime p') =
         (case dropWhile (expired (markEvidenceAsCommitted E (updateState evpool st) evs))
                 (pendingRecords E (markEvidenceAsCommitted E (updateState evpool st) evs)) of
            [] \<Rightarrow> (LastBlockHeight st, LastBlockTime st)
          | ev # rest \<Rightarrow>
              (Height ev + word_of_int (MaxAgeNumBlocks (Evidence (ConsensusParams st))) + 1,
               Time ev + MaxAgeDuration (Evidence (ConsensusParams st)) + Second)))) \<and>
   pruningHeight (snd (AddEvidence E evpool ev)) = pruningHeight evpool \<and>
   pruningTime (snd (AddEvidence E evpool ev)) = pruningTime evpool \<and>
   pruningHeight (snd (AddEvidenceFromConsensus E evpool ev)) = pruningHeight evpool \<and>
   pruningTime (snd (AddEvidenceFromConsensus E evpool ev)) = pruningTime evpool \<and>
   pruningHeight (snd (CheckEvidence E evpool evs)) = pruningHeight evpool \<and>
   pruningTime (snd (CheckEvidence E evpool evs)) = pruningTime evpool"
proof -
  let ?q = "markEvidenceAsCommitted E (updateState evpool st) evs"
  have stq: "state ?q = st" by (simp add: updateState_def)
  have wq: "pruningHeight ?q = pruningHeight evpool" "pruningTime ?q = pruningTime evpool"
    by (simp_all add: updateState_def)
  have upd: "Update E evpool st evs = Inr p' \<longrightarrow>
      (pruningHeight p' = pruningHeight evpool \<and> pruningTime p' = pruningTime evpool) \<or>
      (pruningHeight evpool < LastBlockHeight st \<and> pruningTime evpool < LastBlockTime st \<and>
       (pruningHeight p', pruningTime p') =
         (case dropWhile (expired ?q) (pendingRecords E ?q) of
            [] \<Rightarrow> (LastBlockHeight st, LastBlockTime st)
          | ev # rest \<Rightarrow>
              (Height ev + word_of_int (MaxAgeNumBlocks (Evidence (ConsensusParams st))) + 1,
               Time ev + MaxAgeDuration (Evidence (ConsensusParams st)) + Second)))"
  proof
    assume "Update E evpool st evs = Inr p'"
    note p' = Update_Inr [OF this]
    let ?r = "removeExpiredPendingEvidence E ?q"
    have w: "fst ?r =
         (case dropWhile (expired ?q) (pendingRecords E ?q) of
            [] \<Rightarrow> (LastBlockHeight st, LastBlockTime st)
          | ev # rest \<Rightarrow>
              (Height ev + word_of_int (MaxAgeNumBlocks (Evidence (ConsensusParams st))) + 1,
               Time ev + MaxAgeDuration (Evidence (ConsensusParams st)) + Second))"
      using removeExpiredPendingEvidence_eq [of E ?q] unfolding stq by simp
    show "(pruningHeight p' = pruningHeight evpool \<and> pruningTime p' = pruningTime evpool) \<or>
      (pruningHeight evpool < LastBlockHeight st \<and> pruningTime evpool < LastBlockTime st \<and>
       (pruningHeight p', pruningTime p') =
         (case dropWhile (expired ?q) (pendingRecords E ?q) of
            [] \<Rightarrow> (LastBlockHeight st, LastBlockTime st)
          | ev # rest \<Rightarrow>
              (Height ev + word_of_int (MaxAgeNumBlocks (Evidence (ConsensusParams st))) + 1,
               Time ev + MaxAgeDuration (Evidence (ConsensusParams st)) + Second)))"
    proof (cases "Size ?q > 0 \<and> LastBlockHeight st > pruningHeight evpool \<and>
                  LastBlockTime st > pruningTime evpool")
      case True
      with p' have "p' = (snd ?r)\<lparr>pruningHeight := fst (fst ?r), pruningTime := snd (fst ?r)\<rparr>"
        by (simp add: Let_def)
      then have "(pruningHeight p', pruningTime p') = fst ?r" by simp
      with True show ?thesis unfolding w by blast
    next
      case False
      with p' have "p' = ?q" by (simp add: Let_def)
      with wq show ?thesis by simp
    qed
  qed
  have a1: "pruningHeight (snd (AddEvidence E evpool ev)) = pruningHeight evpool \<and>
      pruningTime (snd (AddEvidence E evpool ev)) = pruningTime evpool"
    using watermark_addPendingEvidence [of E evpool ev]
    by (cases "addPendingEvidence E evpool ev")
      (auto simp: AddEvidence_def split: option.splits)
  have a2: "pruningHeight (snd (AddEvidenceFromConsensus E evpool ev)) = pruningHeight evpool \<and>
      pruningTime (snd (AddEvidenceFromConsensus E evpool ev)) = pruningTime evpool"
    using watermark_addPendingEvidence [of E evpool ev]
    by (cases "addPendingEvidence E evpool ev")
      (auto simp: AddEvidenceFromConsensus_def split: option.splits)
  have a3: "pruningHeight (snd (CheckEvidence E evpool evs)) = pruningHeight evpool \<and>
      pruningTime (snd (CheckEvidence E evpool evs)) = pruningTime evpool"
    by (simp add: CheckEvidence_def watermark_checkLoop)
  from upd a1 a2 a3 show ?thesis by blast
qed

text \<open>
  The watermark does decrease: a pool built at height 100 has the watermark height 100;
  after a record of height 50 that is young in time is added, \<open>Update\<close> to height 101
  sets the watermark height to 61.
\<close>

lemma NewPool_exPool: "NewPool exEnv (exState 100 200) [] = Inr exPool"
  by (simp add: NewPool_def removeExpiredPendingEvidence_def listEvidence_def NewIterator_def
      State_def exPool_def exState_def)

lemma AddEvidence_exPool3: "AddEvidence exEnv exPool (exEv 50 190 1) = (None, exPool3)"
  by (simp add: AddEvidence_def addPendingEvidence_def isPending_def isCommitted_def Has_def
      Put_def exPool_def keyPending_def keyCommitted_def keySuffix_def exEnv_def exEv_def)
    (simp add: exPool3_def exEv_def)

lemma Update_exPool3:
  "Update exEnv exPool3 (exState 101 201) [] =
     Inr (exPool3\<lparr>state := exState 101 201, pruningHeight := 61, pruningTime := 1000000290\<rparr>)"
  by (simp add: Update_def updateState_def markEvidenceAsCommitted_def Size_def After_def
      removeExpiredPendingEvidence_def NewIterator_def exPool3_def bytesToEv_def
      exEnv_def isExpired_def State_def exState_def Sub_def maxDuration_def minDuration_def
      Add_def Second_def)

theorem Update_watermark_counterexample:
  "NewPool exEnv (exState 100 200) [] = Inr exPool \<and>
   AddEvidence exEnv exPool (exEv 50 190 1) = (None, exPool3) \<and>
   Update exEnv exPool3 (exState 101 201) [] =
     Inr (exPool3\<lparr>state := exState 101 201, pruningHeight := 61, pruningTime := 1000000290\<rparr>) \<and>
   pruningHeight exPool3 = 100 \<and> (61 :: uint64) < 100"
  using NewPool_exPool AddEvidence_exPool3 Update_exPool3 by (simp add: exPool3_def)

theorem Update_watermark_witness:
  "Update exEnv exPool2 (exState 120 400) [] =
     Inr (exPool2\<lparr>state := exState 120 400, evidenceList := [], evidenceSize := 0, evidenceDB := [],
                  pruningHeight := 120, pruningTime := 400\<rparr>) \<and>
   pruningHeight exPool2 < 120 \<and> pruningTime exPool2 < 400"
proof -
  have u: "Update exEnv exPool2 (exState 120 400) [] =
     Inr (exPool2\<lparr>state := exState 120 400, evidenceList := [], evidenceSize := 0, evidenceDB := [],
                  pruningHeight := 120, pruningTime := 400\<rparr>)"
    by (simp add: removeExpiredPendingEvidence_def NewIterator_def
      Update_def updateState_def markEvidenceAsCommitted_def Size_def After_def
      exPool2_def bytesToEv_def keyPending_def keySuffix_def key_rank_def removePendingEvidence_def
      removeEvidenceFromList_def evMapKey_def Delete_def
      exEnv_def exEv_def isExpired_def State_def exState_def Sub_def maxDuration_def minDuration_def
      Add_def Second_def)
  from Update_watermark [of exEnv exPool2 "exState 120 400" "[]" _ "exEv 1 1 1"] u
  show ?thesis by (simp add: exPool2_def)
qed

subsection \<open>CheckEvidence on duplicates\<close>

lemma checkLoop_error_invalid:
  "fst (checkLoop E p hashes evs) = Some err \<Longrightarrow> \<exists>ev r. err = ErrInvalidEvidence ev r"
proof (induction evs arbitrary: p hashes)
  case Nil
  then show ?case by simp
next
  case (Cons ev rest)
  then show ?case
    by (auto simp: Let_def split: if_splits option.splits prod.splits)
qed

lemma checkLoop_duplicate_fails:
  "(\<exists>ev \<in> set evs. Hash ev \<in> set hashes) \<or> \<not> distinct (map Hash evs)
     \<Longrightarrow> \<exists>err. fst (checkLoop E p hashes evs) = Some err"
proof (induction evs arbitrary: p hashes)
  case Nil
  then show ?case by simp
next
  case (Cons ev rest)
  show ?case
  proof (cases "Hash ev \<in> set hashes")
    case True
    then show ?thesis
      by (auto simp: Let_def split: option.splits prod.splits)
  next
    case False
    with Cons.prems
    have nxt: "\<And>q. \<exists>err. fst (checkLoop E q (hashes @ [Hash ev]) rest) = Some err"
      by (intro Cons.IH) auto
    show ?thesis
      using False nxt
      by (auto simp: Let_def split: option.splits prod.splits)
  qed
qed

lemma Has_Put_same: "Has (Put db k v) k"
  by (simp add: Has_def Put_def)

lemma isPending_addPendingEvidence:
  "addPendingEvidence E p ev = (None, p1) \<Longrightarrow> isPending p1 ev"
  by (auto simp: addPendingEvidence_def isPending_def Has_Put_same split: option.splits if_splits)

lemma addPendingEvidence_error_unchanged:
  "addPendingEvidence E p ev = (Some err, p1) \<Longrightarrow> p1 = p"
  by (auto simp: addPendingEvidence_def split: option.splits if_splits)

lemma CheckEvidence_twice:
  "fst (CheckEvidence E evpool [ev, ev]) =
      Some (ErrInvalidEvidence ev
        (if isPending evpool ev then ''duplicate evidence''
         else if isCommitted evpool ev then ''evidence was already committed''
         else (case verify E evpool ev of
                 Some reason \<Rightarrow> reason
               | None \<Rightarrow> ''duplicate evidence'')))"
proof (cases "addPendingEvidence E evpool ev")
  case (Pair err p1)
  show ?thesis
  proof (cases err)
    case None
    with Pair have "isPending p1 ev" by (simp add: isPending_addPendingEvidence)
    with Pair None show ?thesis
      by (simp add: CheckEvidence_def fastCheck_def Let_def split: option.split)
  next
    case (Some e)
    with Pair have "p1 = evpool" by (simp add: addPendingEvidence_error_unchanged)
    with Pair Some show ?thesis
      by (simp add: CheckEvidence_def fastCheck_def Let_def split: option.split)
  qed
qed

text \<open>
  C8 (as amended). \<open>CheckEvidence\<close> on a list in which two entries have the same hash
  always returns an \<open>ErrInvalidEvidence\<close>. On the list \<open>[ev, ev]\<close> the error carries
  \<open>ev\<close>, and its reason is duplicate evidence when \<open>ev\<close> is pending, or is not committed
  and passes verification; when \<open>ev\<close> is not pending and committed the reason is that it
  was already committed, and when it is neither and fails verification the reason is the
  one of the verification.
\<close>

theorem CheckEvidence_duplicate:
  "(\<not> distinct (map Hash evList) \<longrightarrow>
      (\<exists>ev r. fst (CheckEvidence E evpool evList) = Some (ErrInvalidEvidence ev r))) \<and>
   fst (CheckEvidence E evpool [ev, ev]) =
      Some (ErrInvalidEvidence ev
        (if isPending evpool ev then ''duplicate evidence''
         else if isCommitted evpool ev then ''evidence was already committed''
         else (case verify E evpool ev of
                 Some reason \<Rightarrow> reason
               | None \<Rightarrow> ''duplicate evidence'')))"
  using checkLoop_duplicate_fails [of evList "[]" E evpool]
    checkLoop_error_invalid [of E evpool "[]" evList]
    CheckEvidence_twice [of E evpool ev]
  unfolding CheckEvidence_def by force

text \<open>
  The reason is not always duplicate evidence: for committed evidence that is not pending
  the first entry is already rejected as committed.
\<close>

theorem CheckEvidence_duplicate_counterexample:
  "CheckEvidence exEnv exPoolCommitted [exEv 101 201 7, exEv 101 201 7] =
     (Some (ErrInvalidEvidence (exEv 101 201 7) ''evidence was already committed''), exPoolCommitted) \<and>
   ''evidence was already committed'' \<noteq> ''duplicate evidence''"
  by (simp add: CheckEvidence_def fastCheck_def isPending_def isCommitted_def Has_def
      keyPending_def keyCommitted_def keySuffix_def exPoolCommitted_def exEv_def)

theorem CheckEvidence_duplicate_witness:
  "\<not> distinct (map Hash [exEv 95 190 1, exEv 96 191 1]) \<and>
   fst (CheckEvidence exEnv exPool [exEv 95 190 1, exEv 96 191 1])
     = Some (ErrInvalidEvidence (exEv 96 191 1) ''duplicate evidence'') \<and>
   fst (CheckEvidence exEnv exPool [exEv 95 190 1, exEv 95 190 1])
     = Some (ErrInvalidEvidence (exEv 95 190 1) ''duplicate evidence'')"
proof -
  have d: "\<not> distinct (map Hash [exEv 95 190 1, exEv 96 191 1])" by (simp add: exEv_def)
  have np: "\<not> isPending exPool (exEv 95 190 1)" "\<not> isCommitted exPool (exEv 95 190 1)"
      "verify exEnv exPool (exEv 95 190 1) = None"
    by (simp_all add: isPending_def isCommitted_def Has_def exPool_def exEnv_def)
  have c: "fst (CheckEvidence exEnv exPool [exEv 95 190 1, exEv 96 191 1])
     = Some (ErrInvalidEvidence (exEv 96 191 1) ''duplicate evidence'')"
    by (simp add: CheckEvidence_def fastCheck_def isPending_def isCommitted_def Has_def Put_def
      addPendingEvidence_def keyPending_def keyCommitted_def keySuffix_def exPool_def exEnv_def
      exEv_def)
  from CheckEvidence_duplicate [of "[exEv 95 190 1, exEv 96 191 1]" exEnv exPool "exEv 95 190 1"]
    d np c
  show ?thesis by simp
qed

subsection \<open>Pending and committed\<close>

text \<open>
  \<open>AddEvidence\<close>, \<open>CheckEvidence\<close>, \<open>Update\<close> and \<open>NewPool\<close> keep the two prefixes disjoint:
  the first two store evidence as pending only after the test \<open>isCommitted\<close>, and
  \<open>markEvidenceAsCommitted\<close> deletes the pending entry of what it commits.
\<close>

lemma disjointNamespaces_iff:
  "disjointNamespaces db \<longleftrightarrow> (\<forall>s. \<not> (Has db (baseKeyPending, s) \<and> Has db (baseKeyCommitted, s)))"
  by (force simp: disjointNamespaces_def Has_def)

lemma Has_Put: "Has (Put db k v) k' \<longleftrightarrow> k' = k \<or> Has db k'"
  by (auto simp: Has_def Put_def)

lemma Has_Delete: "Has (Delete db k) k' \<longleftrightarrow> k' \<noteq> k \<and> Has db k'"
  by (auto simp: Has_def Delete_def)

lemma Has_filter_keys: "Has (filter (\<lambda>e. fst e \<notin> S) db) k \<longleftrightarrow> k \<notin> S \<and> Has db k"
  by (auto simp: Has_def)

lemma disjoint_addPendingEvidence:
  assumes "disjointNamespaces (evidenceDB p)" and "\<not> isCommitted p ev"
  shows "disjointNamespaces (evidenceDB (snd (addPendingEvidence E p ev)))"
  using assms
  by (auto simp: disjointNamespaces_iff addPendingEvidence_def Has_Put isCommitted_def
      keyPending_def keyCommitted_def split: option.splits)

lemma disjoint_markLoop:
  "disjointNamespaces (evidenceDB p) \<Longrightarrow> disjointNamespaces (evidenceDB (fst (markLoop E p m evs)))"
proof (induction evs arbitrary: p m)
  case Nil
  then show ?case by simp
next
  case (Cons ev rest)
  let ?p1 = "if isPending p ev then removePendingEvidence p ev else p"
  have d1: "disjointNamespaces (evidenceDB ?p1)"
    using Cons.prems
    by (auto simp: disjointNamespaces_iff removePendingEvidence_def Has_Delete)
  have np: "\<not> Has (evidenceDB ?p1) (keyPending ev)"
    by (auto simp: removePendingEvidence_def Has_Delete isPending_def)
  have d2: "\<And>b. disjointNamespaces (Put (evidenceDB ?p1) (keyCommitted ev) b)"
    using d1 np
    by (auto simp: disjointNamespaces_iff Has_Put keyPending_def keyCommitted_def)
  show ?case
  proof (cases "MarshalUInt64 E (Height ev)")
    case None
    with d1 Cons.IH [of ?p1] show ?thesis
      by (simp split: if_splits)
  next
    case (Some b)
    with d2 [of b] Cons.IH [of "?p1\<lparr>evidenceDB := Put (evidenceDB ?p1) (keyCommitted ev) b\<rparr>"]
    show ?thesis
      by (simp split: if_splits)
  qed
qed

lemma evidenceDB_removeEvidenceFromList [simp]:
  "evidenceDB (removeEvidenceFromList p m) = evidenceDB p"
  by (simp add: removeEvidenceFromList_def)

lemma disjoint_markEvidenceAsCommitted:
  assumes "disjointNamespaces (evidenceDB p)"
  shows "disjointNamespaces (evidenceDB (markEvidenceAsCommitted E p evs))"
proof (cases "markLoop E p {} evs")
  case (Pair p1 m)
  with disjoint_markLoop [OF assms, of E "{}" evs] show ?thesis
    by (simp add: markEvidenceAsCommitted_def)
qed

lemma disjoint_removeExpired:
  assumes "disjointNamespaces (evidenceDB p)"
  shows "disjointNamespaces (evidenceDB (snd (removeExpiredPendingEvidence E p)))"
  using assms by (auto simp: disjointNamespaces_iff pruned_evidenceDB Has_filter_keys)

lemma disjoint_checkLoop:
  "disjointNamespaces (evidenceDB p) \<Longrightarrow>
     disjointNamespaces (evidenceDB (snd (checkLoop E p hashes evs)))"
proof (induction evs arbitrary: p hashes)
  case Nil
  then show ?case by simp
next
  case (Cons ev rest)
  obtain err p1 where ap: "addPendingEvidence E p ev = (err, p1)"
    by (cases "addPendingEvidence E p ev")
  have d1: "\<not> isCommitted p ev \<Longrightarrow> disjointNamespaces (evidenceDB p1)"
    using disjoint_addPendingEvidence [OF Cons.prems, of ev E] ap by simp
  show ?case
    using ap d1 Cons.prems Cons.IH
    by (auto simp: Let_def split: option.splits)
qed

lemma disjoint_preserved:
  assumes d: "disjointNamespaces (evidenceDB evpool)"
  shows "disjointNamespaces (evidenceDB (snd (AddEvidence E evpool ev)))"
    and "disjointNamespaces (evidenceDB (snd (CheckEvidence E evpool evs)))"
    and "Update E evpool st evs = Inr p' \<Longrightarrow> disjointNamespaces (evidenceDB p')"
    and "NewPool E st (evidenceDB evpool) = Inr p' \<Longrightarrow> disjointNamespaces (evidenceDB p')"
proof -
  obtain err p1 where ap: "addPendingEvidence E evpool ev = (err, p1)"
    by (cases "addPendingEvidence E evpool ev")
  have d1: "\<not> isCommitted evpool ev \<Longrightarrow> disjointNamespaces (evidenceDB p1)"
    using disjoint_addPendingEvidence [OF d, of ev E] ap by simp
  show "disjointNamespaces (evidenceDB (snd (AddEvidence E evpool ev)))"
    using d ap d1 by (auto simp: AddEvidence_def split: option.splits)
  show "disjointNamespaces (evidenceDB (snd (CheckEvidence E evpool evs)))"
    unfolding CheckEvidence_def using d by (rule disjoint_checkLoop)
  {
    assume u: "Update E evpool st evs = Inr p'"
    let ?q = "markEvidenceAsCommitted E (updateState evpool st) evs"
    have dq: "disjointNamespaces (evidenceDB ?q)"
      using d by (intro disjoint_markEvidenceAsCommitted) (simp add: updateState_def)
    from Update_Inr [OF u] dq disjoint_removeExpired [OF dq, of E]
    show "disjointNamespaces (evidenceDB p')"
      by (simp add: Let_def split: if_splits)
  }
  {
    assume n: "NewPool E st (evidenceDB evpool) = Inr p'"
    let ?p0 = "\<lparr>evidenceList = [], evidenceSize = 0, evidenceDB = evidenceDB evpool, state = st,
            pruningHeight = 0, pruningTime = 0\<rparr>"
    have "disjointNamespaces (evidenceDB (snd (removeExpiredPendingEvidence E ?p0)))"
      using d by (intro disjoint_removeExpired) simp
    moreover from n have "evidenceDB p' = evidenceDB (snd (removeExpiredPendingEvidence E ?p0))"
      by (auto simp: NewPool_def Let_def split: prod.splits option.splits)
    ultimately show "disjointNamespaces (evidenceDB p')" by simp
  }
qed

text \<open>
  C1. No evidence should be both pending and committed, and \<open>AddEvidenceFromConsensus\<close>
  on committed evidence should return success without storing it as pending again. The code
  does not do this: \<open>AddEvidenceFromConsensus\<close> has no test \<open>isCommitted\<close>, which
  \<open>AddEvidence\<close> has. After \<open>Update\<close> has committed a piece of evidence,
  \<open>AddEvidence\<close> leaves the pool as it is and \<open>AddEvidenceFromConsensus\<close> makes the
  evidence pending, so that it is pending and committed.
\<close>

theorem AddEvidenceFromConsensus_readmits:
  "Update exEnv exPool (exState 101 201) [exEv 101 201 7] = Inr exPoolCommitted \<and>
   isCommitted exPoolCommitted (exEv 101 201 7) \<and>
   \<not> isPending exPoolCommitted (exEv 101 201 7) \<and>
   AddEvidence exEnv exPoolCommitted (exEv 101 201 7) = (None, exPoolCommitted) \<and>
   fst (AddEvidenceFromConsensus exEnv exPoolCommitted (exEv 101 201 7)) = None \<and>
   isPending (snd (AddEvidenceFromConsensus exEnv exPoolCommitted (exEv 101 201 7))) (exEv 101 201 7) \<and>
   isCommitted (snd (AddEvidenceFromConsensus exEnv exPoolCommitted (exEv 101 201 7))) (exEv 101 201 7)"
proof -
  have u: "Update exEnv exPool (exState 101 201) [exEv 101 201 7] = Inr exPoolCommitted"
    by (simp add: Update_def updateState_def markEvidenceAsCommitted_def Size_def
        isPending_def Has_def Put_def keyPending_def keyCommitted_def keySuffix_def
        exPool_def exEnv_def exEv_def exState_def)
      (simp add: exPoolCommitted_def exState_def)
  have rest: "isCommitted exPoolCommitted (exEv 101 201 7) \<and>
   \<not> isPending exPoolCommitted (exEv 101 201 7) \<and>
   AddEvidence exEnv exPoolCommitted (exEv 101 201 7) = (None, exPoolCommitted) \<and>
   fst (AddEvidenceFromConsensus exEnv exPoolCommitted (exEv 101 201 7)) = None \<and>
   isPending (snd (AddEvidenceFromConsensus exEnv exPoolCommitted (exEv 101 201 7))) (exEv 101 201 7) \<and>
   isCommitted (snd (AddEvidenceFromConsensus exEnv exPoolCommitted (exEv 101 201 7))) (exEv 101 201 7)"
    by (simp add: AddEvidence_def AddEvidenceFromConsensus_def addPendingEvidence_def
        isPending_def isCommitted_def Has_def Put_def keyPending_def keyCommitted_def
        keySuffix_def exPoolCommitted_def exEnv_def exEv_def)
  from u rest show ?thesis by simp
qed

subsection \<open>Listing the pending evidence\<close>

lemma listLoop_bound:
  "0 \<le> mb \<Longrightarrow> tot \<le> mb \<Longrightarrow> fst (snd (listLoop E mb vs evs evList tot)) \<le> mb"
proof (induction vs arbitrary: evs evList tot)
  case Nil
  then show ?case by simp
next
  case (Cons v rest)
  show ?case
  proof (cases "Unmarshal E v")
    case None
    with Cons.prems show ?thesis by simp
  next
    case (Some evp)
    show ?thesis
    proof (cases "EvidenceFromProto E evp")
      case None
      with Some Cons.prems show ?thesis by (simp add: Let_def)
    next
      case (Some ev)
      with \<open>Unmarshal E v = Some evp\<close> Cons.prems Cons.IH show ?thesis
        by (simp add: Let_def)
    qed
  qed
qed

lemma listLoop_prefix:
  "listLoop E mb vs evs evList tot = (r, sz, None) \<Longrightarrow>
     \<exists>n ps es. n \<le> length vs \<and> length ps = n \<and>
       map (Unmarshal E) (take n vs) = map Some ps \<and>
       map (EvidenceFromProto E) ps = map Some es \<and>
       r = evs @ es \<and>
       sz = (if n = 0 then tot else EvidenceData_Size E (evList @ ps)) \<and>
       (n < length vs \<longrightarrow> mb \<noteq> - 1 \<and>
          (\<exists>evp. Unmarshal E (vs ! n) = Some evp \<and> mb < EvidenceData_Size E (evList @ ps @ [evp])))"
proof (induction vs arbitrary: evs evList tot)
  case Nil
  then show ?case by simp
next
  case (Cons v rest)
  show ?case
  proof (cases "Unmarshal E v")
    case None
    with Cons.prems show ?thesis by simp
  next
    case (Some evp)
    note um = this
    show ?thesis
    proof (cases "mb \<noteq> - 1 \<and> mb < EvidenceData_Size E (evList @ [evp])")
      case True
      with um Cons.prems have "r = evs" "sz = tot" by (simp_all add: Let_def)
      with True um show ?thesis
        by (intro exI [of _ 0] exI [of _ "[]"]) simp
    next
      case False
      show ?thesis
      proof (cases "EvidenceFromProto E evp")
        case None
        with um False Cons.prems show ?thesis by (auto simp: Let_def)
      next
        case (Some ev)
        with um False Cons.prems
        have "listLoop E mb rest (evs @ [ev]) (evList @ [evp]) (EvidenceData_Size E (evList @ [evp]))
            = (r, sz, None)"
          by (auto simp: Let_def)
        from Cons.IH [OF this] obtain n ps es where n: "n \<le> length rest" "length ps = n"
          and u: "map (Unmarshal E) (take n rest) = map Some ps"
          and f: "map (EvidenceFromProto E) ps = map Some es"
          and r: "r = (evs @ [ev]) @ es"
          and sz: "sz = (if n = 0 then EvidenceData_Size E (evList @ [evp])
                         else EvidenceData_Size E ((evList @ [evp]) @ ps))"
          and c: "n < length rest \<longrightarrow> mb \<noteq> - 1 \<and>
              (\<exists>evp'. Unmarshal E (rest ! n) = Some evp' \<and>
                 mb < EvidenceData_Size E ((evList @ [evp]) @ ps @ [evp']))"
          by blast
        from n sz have sz': "sz = EvidenceData_Size E (evList @ evp # ps)"
          by (cases "n = 0") auto
        show ?thesis
          apply (rule exI [of _ "Suc n"])
          apply (rule exI [of _ "evp # ps"])
          apply (rule exI [of _ "ev # es"])
          using n u f r sz' c um Some by simp
      qed
    qed
  qed
qed

lemma listLoop_unbounded:
  "snd (snd (listLoop E (- 1) vs evs evList tot)) = None \<Longrightarrow>
     fst (listLoop E (- 1) vs evs evList tot) = evs @ List.map_filter (bytesToEv E) vs"
proof (induction vs arbitrary: evs evList tot)
  case Nil
  then show ?case by simp
next
  case (Cons v rest)
  then show ?case
    by (auto simp: Let_def bytesToEv_def split: option.splits)
qed

lemma listLoop_unbounded_error:
  "snd (snd (listLoop E (- 1) vs evs evList tot)) \<noteq> None \<longleftrightarrow>
     (\<exists>v \<in> set vs. bytesToEv E v = None)"
proof (induction vs arbitrary: evs evList tot)
  case Nil
  then show ?case by simp
next
  case (Cons v rest)
  then show ?case
    by (auto simp: Let_def bytesToEv_def split: option.splits)
qed

lemma bytesToEv_Some:
  "bytesToEv E v = Some ev \<Longrightarrow> \<exists>evp. Unmarshal E v = Some evp \<and> EvidenceFromProto E evp = Some ev"
  by (auto simp: bytesToEv_def split: option.splits)

lemma listLoop_error_source:
  "snd (snd (listLoop E mb vs evs evList tot)) \<noteq> None \<Longrightarrow> \<exists>v \<in> set vs. bytesToEv E v = None"
proof (induction vs arbitrary: evs evList tot)
  case Nil
  then show ?case by simp
next
  case (Cons v rest)
  show ?case
  proof (cases "bytesToEv E v")
    case None
    then show ?thesis by simp
  next
    case (Some ev)
    then obtain evp where um: "Unmarshal E v = Some evp" and fp: "EvidenceFromProto E evp = Some ev"
      by (auto dest: bytesToEv_Some)
    with Cons.prems
    have "snd (snd (listLoop E mb rest (evs @ [ev]) (evList @ [evp])
             (EvidenceData_Size E (evList @ [evp])))) \<noteq> None"
      by (simp add: Let_def split: if_splits)
    from Cons.IH [OF this] show ?thesis by simp
  qed
qed

lemma listLoop_stops:
  "bytesToEv E v = None \<Longrightarrow>
     listLoop E mb (vs @ v # rest) evs evList tot = listLoop E mb (vs @ [v]) evs evList tot"
proof (induction vs arbitrary: evs evList tot)
  case Nil
  then show ?case
    by (auto simp: Let_def bytesToEv_def split: option.splits)
next
  case (Cons w ws)
  then show ?case
    by (auto simp: Let_def split: option.splits)
qed

lemma pruneLoop_skips:
  "pruneLoop E p m vs = pruneLoop E p m (filter (\<lambda>v. bytesToEv E v \<noteq> None) vs)"
proof -
  have "List.map_filter (bytesToEv E) (filter (\<lambda>v. bytesToEv E v \<noteq> None) vs)
      = List.map_filter (bytesToEv E) vs"
    by (simp add: List.map_filter_def)
  then show ?thesis by (simp add: pruneLoop_eq)
qed

lemma decoded_prefix:
  "map (Unmarshal E) xs = map Some ps \<Longrightarrow> map (EvidenceFromProto E) ps = map Some es \<Longrightarrow>
     List.map_filter (bytesToEv E) xs = es"
proof (induction xs arbitrary: ps es)
  case Nil
  then show ?case by simp
next
  case (Cons x xs)
  then obtain evp ps' where ps: "ps = evp # ps'" by (cases ps) auto
  with Cons.prems obtain ev es' where es: "es = ev # es'" by (cases es) auto
  from Cons.prems ps es have "Unmarshal E x = Some evp" "EvidenceFromProto E evp = Some ev"
    "map (Unmarshal E) xs = map Some ps'" "map (EvidenceFromProto E) ps' = map Some es'"
    by simp_all
  with Cons.IH [of ps' es'] es show ?case by (simp add: bytesToEv_def)
qed

lemma map_filter_append:
  "List.map_filter f (xs @ ys) = List.map_filter f xs @ List.map_filter f ys"
  by (simp add: List.map_filter_def)

lemma listEvidence_prefix:
  assumes "listEvidence E evpool pre mb = (es, sz, None)"
  shows "\<exists>n ps. n \<le> length (map snd (NewIterator (evidenceDB evpool) pre)) \<and> length ps = n \<and>
       map (Unmarshal E) (take n (map snd (NewIterator (evidenceDB evpool) pre))) = map Some ps \<and>
       map (EvidenceFromProto E) ps = map Some es \<and>
       sz = (if n = 0 then 0 else EvidenceData_Size E ps) \<and>
       (n < length (map snd (NewIterator (evidenceDB evpool) pre)) \<longrightarrow> mb \<noteq> - 1 \<and>
          (\<exists>evp. Unmarshal E (map snd (NewIterator (evidenceDB evpool) pre) ! n) = Some evp \<and>
                 mb < EvidenceData_Size E (ps @ [evp]))) \<and>
       List.map_filter (bytesToEv E) (map snd (NewIterator (evidenceDB evpool) pre))
         = es @ List.map_filter (bytesToEv E) (drop n (map snd (NewIterator (evidenceDB evpool) pre)))"
proof -
  let ?vs = "map snd (NewIterator (evidenceDB evpool) pre)"
  from assms have "listLoop E mb ?vs [] [] 0 = (es, sz, None)" by (simp add: listEvidence_def)
  from listLoop_prefix [OF this] obtain n ps es' where n: "n \<le> length ?vs" "length ps = n"
    and u: "map (Unmarshal E) (take n ?vs) = map Some ps"
    and f: "map (EvidenceFromProto E) ps = map Some es'"
    and r: "es = [] @ es'"
    and sz: "sz = (if n = 0 then 0 else EvidenceData_Size E ([] @ ps))"
    and c: "n < length ?vs \<longrightarrow> mb \<noteq> - 1 \<and>
          (\<exists>evp. Unmarshal E (?vs ! n) = Some evp \<and> mb < EvidenceData_Size E ([] @ ps @ [evp]))"
    by blast
  from r have es: "es' = es" by simp
  from decoded_prefix [OF u f] es have "List.map_filter (bytesToEv E) (take n ?vs) = es" by simp
  then have "List.map_filter (bytesToEv E) ?vs = es @ List.map_filter (bytesToEv E) (drop n ?vs)"
    using map_filter_append [of "bytesToEv E" "take n ?vs" "drop n ?vs"] by simp
  with n u f sz c es show ?thesis
    by (intro exI [of _ n] exI [of _ ps]) simp
qed

text \<open>
  C6 (as amended). For a bound \<open>maxBytes \<ge> 0\<close> the size that \<open>PendingEvidence\<close> returns is at
  most \<open>maxBytes\<close>. When the pool is not empty and the listing returns no error, the
  evidence returned is the decoding of the first \<open>n\<close> pending entries in key order, so a
  prefix of the pool's records; the size returned is the serialized size of that prefix (0
  for the empty one); and the listing stops before the end only when the bound is not
  \<open>-1\<close> and the prefix with the next entry would exceed it. With \<open>maxBytes = -1\<close> all
  records are returned.
\<close>

theorem PendingEvidence_bounded:
  "(0 \<le> maxBytes \<longrightarrow> snd (PendingEvidence E evpool maxBytes) \<le> maxBytes) \<and>
   (Size evpool \<noteq> 0 \<and> snd (snd (listEvidence E evpool baseKeyPending maxBytes)) = None \<longrightarrow>
      (\<exists>n ps. n \<le> length (map snd (NewIterator (evidenceDB evpool) baseKeyPending)) \<and>
         length ps = n \<and>
         map (Unmarshal E) (take n (map snd (NewIterator (evidenceDB evpool) baseKeyPending)))
           = map Some ps \<and>
         map (EvidenceFromProto E) ps = map Some (fst (PendingEvidence E evpool maxBytes)) \<and>
         snd (PendingEvidence E evpool maxBytes) = (if n = 0 then 0 else EvidenceData_Size E ps) \<and>
         (n < length (map snd (NewIterator (evidenceDB evpool) baseKeyPending)) \<longrightarrow>
            maxBytes \<noteq> - 1 \<and>
            (\<exists>evp. Unmarshal E (map snd (NewIterator (evidenceDB evpool) baseKeyPending) ! n) = Some evp \<and>
                   maxBytes < EvidenceData_Size E (ps @ [evp]))) \<and>
         pendingRecords E evpool =
           fst (PendingEvidence E evpool maxBytes) @
           List.map_filter (bytesToEv E)
             (drop n (map snd (NewIterator (evidenceDB evpool) baseKeyPending)))) \<and>
      (maxBytes = - 1 \<longrightarrow> fst (PendingEvidence E evpool maxBytes) = pendingRecords E evpool))"
proof (intro conjI impI)
  assume mb: "0 \<le> maxBytes"
  show "snd (PendingEvidence E evpool maxBytes) \<le> maxBytes"
  proof (cases "Size evpool = 0")
    case True
    with mb show ?thesis by (simp add: PendingEvidence_def)
  next
    case False
    obtain es sz err where l: "listEvidence E evpool baseKeyPending maxBytes = (es, sz, err)"
      by (cases "listEvidence E evpool baseKeyPending maxBytes") auto
    from listLoop_bound [of maxBytes 0 E "map snd (NewIterator (evidenceDB evpool) baseKeyPending)" "[]" "[]"] mb l
    have "sz \<le> maxBytes" by (simp add: listEvidence_def)
    with False l show ?thesis by (simp add: PendingEvidence_def)
  qed
next
  assume h: "Size evpool \<noteq> 0 \<and> snd (snd (listEvidence E evpool baseKeyPending maxBytes)) = None"
  obtain es sz where l: "listEvidence E evpool baseKeyPending maxBytes = (es, sz, None)"
    using h by (cases "listEvidence E evpool baseKeyPending maxBytes") auto
  with h have pe: "PendingEvidence E evpool maxBytes = (es, sz)"
    by (simp add: PendingEvidence_def)
  from listEvidence_prefix [OF l]
  show "\<exists>n ps. n \<le> length (map snd (NewIterator (evidenceDB evpool) baseKeyPending)) \<and>
         length ps = n \<and>
         map (Unmarshal E) (take n (map snd (NewIterator (evidenceDB evpool) baseKeyPending)))
           = map Some ps \<and>
         map (EvidenceFromProto E) ps = map Some (fst (PendingEvidence E evpool maxBytes)) \<and>
         snd (PendingEvidence E evpool maxBytes) = (if n = 0 then 0 else EvidenceData_Size E ps) \<and>
         (n < length (map snd (NewIterator (evidenceDB evpool) baseKeyPending)) \<longrightarrow>
            maxBytes \<noteq> - 1 \<and>
            (\<exists>evp. Unmarshal E (map snd (NewIterator (evidenceDB evpool) baseKeyPending) ! n) = Some evp \<and>
                   maxBytes < EvidenceData_Size E (ps @ [evp]))) \<and>
         pendingRecords E evpool =
           fst (PendingEvidence E evpool maxBytes) @
           List.map_filter (bytesToEv E)
             (drop n (map snd (NewIterator (evidenceDB evpool) baseKeyPending)))"
    unfolding pe pendingRecords_def fst_conv snd_conv .
next
  assume h: "Size evpool \<noteq> 0 \<and> snd (snd (listEvidence E evpool baseKeyPending maxBytes)) = None"
    and m: "maxBytes = - 1"
  obtain es sz where l: "listEvidence E evpool baseKeyPending maxBytes = (es, sz, None)"
    using h by (cases "listEvidence E evpool baseKeyPending maxBytes") auto
  with h have pe: "PendingEvidence E evpool maxBytes = (es, sz)"
    by (simp add: PendingEvidence_def)
  from l m listLoop_unbounded [of E "map snd (NewIterator (evidenceDB evpool) baseKeyPending)" "[]" "[]" 0]
  have "es = pendingRecords E evpool"
    by (simp add: listEvidence_def pendingRecords_def)
  with pe show "fst (PendingEvidence E evpool maxBytes) = pendingRecords E evpool" by simp
qed

text \<open>
  Only \<open>-1\<close> lifts the bound: with \<open>maxBytes = -2\<close> the first entry already exceeds the
  bound and nothing is returned, where \<open>-1\<close> returns both records.
\<close>

lemma exPool2_iterator:
  "map snd (NewIterator (evidenceDB exPool2) baseKeyPending) = [[50, 50, 1], [95, 190, 2]]"
  by (simp add: NewIterator_def exPool2_def key_rank_def)

lemma exPool2_PendingEvidence:
  "PendingEvidence exEnv exPool2 15 = ([exEv 50 50 1], 10)"
  "PendingEvidence exEnv exPool2 (- 1) = ([exEv 50 50 1, exEv 95 190 2], 20)"
  "PendingEvidence exEnv exPool2 (- 2) = ([], 0)"
  by (simp_all add: PendingEvidence_def listEvidence_def exPool2_iterator)
    (simp_all add: Size_def exPool2_def exEnv_def exEv_def)

theorem PendingEvidence_bounded_counterexample:
  "(- 2 :: int) < 0 \<and>
   PendingEvidence exEnv exPool2 (- 2) = ([], 0) \<and>
   PendingEvidence exEnv exPool2 (- 1) = ([exEv 50 50 1, exEv 95 190 2], 20)"
  by (simp add: exPool2_PendingEvidence)

theorem PendingEvidence_bounded_witness:
  "(0 :: int) \<le> 15 \<and> snd (PendingEvidence exEnv exPool2 15) \<le> 15 \<and>
   Size exPool2 \<noteq> 0 \<and> snd (snd (listEvidence exEnv exPool2 baseKeyPending (- 1))) = None \<and>
   fst (PendingEvidence exEnv exPool2 15) = [exEv 50 50 1] \<and>
   fst (PendingEvidence exEnv exPool2 (- 1)) = pendingRecords exEnv exPool2"
proof -
  have s: "Size exPool2 \<noteq> 0" by (simp add: Size_def exPool2_def)
  have n: "snd (snd (listEvidence exEnv exPool2 baseKeyPending (- 1))) = None"
    by (simp add: listEvidence_def exPool2_iterator) (simp add: exEnv_def)
  from PendingEvidence_bounded [of 15 exEnv exPool2] PendingEvidence_bounded [of "- 1" exEnv exPool2]
    s n
  show ?thesis by (simp add: exPool2_PendingEvidence)
qed

subsection \<open>Entries that do not deserialize\<close>

lemma listEvidence_unbounded_error:
  "snd (snd (listEvidence E p pre (- 1))) \<noteq> None \<longleftrightarrow>
     (\<exists>e \<in> set (evidenceDB p). fst (fst e) = pre \<and> bytesToEv E (snd e) = None)"
proof -
  have "(\<exists>v \<in> set (map snd (NewIterator (evidenceDB p) pre)). bytesToEv E v = None) \<longleftrightarrow>
      (\<exists>e \<in> set (evidenceDB p). fst (fst e) = pre \<and> bytesToEv E (snd e) = None)"
    by (force simp: set_NewIterator)
  then show ?thesis
    unfolding listEvidence_def listLoop_unbounded_error .
qed

lemma listEvidence_error_source:
  assumes "snd (snd (listEvidence E p pre mb)) \<noteq> None"
  shows "\<exists>e \<in> set (evidenceDB p). fst (fst e) = pre \<and> bytesToEv E (snd e) = None"
proof -
  from assms have "\<exists>v \<in> set (map snd (NewIterator (evidenceDB p) pre)). bytesToEv E v = None"
    unfolding listEvidence_def by (rule listLoop_error_source)
  then show ?thesis by (force simp: set_NewIterator)
qed

lemma undecodable_entry_kept:
  assumes wk: "pendingWellKeyed E (evidenceDB p)"
    and e: "e \<in> set (evidenceDB p)"
    and pre: "fst (fst e) = baseKeyPending"
    and dec: "bytesToEv E (snd e) = None"
  shows "e \<in> set (evidenceDB (snd (removeExpiredPendingEvidence E p)))"
proof -
  have "fst e \<notin> keyPending ` set (takeWhile (expired p) (pendingRecords E p))"
  proof
    assume "fst e \<in> keyPending ` set (takeWhile (expired p) (pendingRecords E p))"
    then obtain ev' where g: "ev' \<in> set (takeWhile (expired p) (pendingRecords E p))"
      and k: "fst e = keyPending ev'" by auto
    from removed_record_source [OF g] obtain e' where
      e': "e' \<in> set (evidenceDB p)" and pre': "fst (fst e') = baseKeyPending"
      and dec': "bytesToEv E (snd e') = Some ev'" by auto
    from wk e' pre' dec' have "keyPending ev' = fst e'"
      by (auto simp: pendingWellKeyed_def)
    with k have "fst e' = fst e" by simp
    moreover from wk have "distinct (map fst (evidenceDB p))" by (simp add: pendingWellKeyed_def)
    ultimately have "e' = e" using e e' by (metis same_key_same_entry)
    with dec dec' show False by simp
  qed
  with e show ?thesis by (simp add: pruned_evidenceDB)
qed

lemma NewPool_fails_iff:
  "(\<exists>err. NewPool E st db = Inl err) \<longleftrightarrow>
     (\<exists>e \<in> set (evidenceDB (snd (removeExpiredPendingEvidence E
           \<lparr>evidenceList = [], evidenceSize = 0, evidenceDB = db, state = st,
            pruningHeight = 0, pruningTime = 0\<rparr>))).
        fst (fst e) = baseKeyPending \<and> bytesToEv E (snd e) = None)"
proof -
  let ?p0 = "\<lparr>evidenceList = [], evidenceSize = 0, evidenceDB = db, state = st,
            pruningHeight = 0, pruningTime = 0\<rparr>"
  obtain w p1 where r: "removeExpiredPendingEvidence E ?p0 = (w, p1)"
    by (cases "removeExpiredPendingEvidence E ?p0")
  let ?p2 = "p1\<lparr>pruningHeight := fst w, pruningTime := snd w\<rparr>"
  obtain es sz err where l: "listEvidence E ?p2 baseKeyPending (- 1) = (es, sz, err)"
    by (cases "listEvidence E ?p2 baseKeyPending (- 1)") auto
  have "(\<exists>e. NewPool E st db = Inl e) \<longleftrightarrow> err \<noteq> None"
    using r l by (auto simp: NewPool_def Let_def split: option.splits)
  also have "\<dots> \<longleftrightarrow> snd (snd (listEvidence E ?p2 baseKeyPending (- 1))) \<noteq> None"
    using l by simp
  also have "\<dots> \<longleftrightarrow> (\<exists>e \<in> set (evidenceDB ?p2). fst (fst e) = baseKeyPending \<and> bytesToEv E (snd e) = None)"
    by (rule listEvidence_unbounded_error)
  finally show ?thesis using r by simp
qed

text \<open>
  C9 (as amended). The pruning pass skips an entry that does not deserialize: it does what it
  does on the entries that deserialize alone. The listing does not: it stops at such an
  entry, the entries after it have no effect on its result, and it returns an error. An
  error of the listing always comes from a pending entry that does not deserialize, and in
  the unbounded listing every such entry causes one. So \<open>NewPool\<close> on a well keyed store
  fails exactly when a pending entry of the store does not deserialize.
\<close>

theorem scan_decode_failure:
  "removeExpiredPendingEvidence E evpool =
     pruneLoop E evpool {}
       (filter (\<lambda>v. bytesToEv E v \<noteq> None) (map snd (NewIterator (evidenceDB evpool) baseKeyPending))) \<and>
   (bytesToEv E v = None \<longrightarrow>
      listLoop E maxBytes (vs @ v # rest) [] [] 0 = listLoop E maxBytes (vs @ [v]) [] [] 0) \<and>
   (snd (snd (listEvidence E evpool baseKeyPending maxBytes)) \<noteq> None \<longrightarrow>
      (\<exists>e \<in> set (evidenceDB evpool). fst (fst e) = baseKeyPending \<and> bytesToEv E (snd e) = None)) \<and>
   ((\<exists>e \<in> set (evidenceDB evpool). fst (fst e) = baseKeyPending \<and> bytesToEv E (snd e) = None) \<longrightarrow>
      snd (snd (listEvidence E evpool baseKeyPending (- 1))) \<noteq> None) \<and>
   (pendingWellKeyed E db \<longrightarrow>
      ((\<exists>err. NewPool E st db = Inl err) \<longleftrightarrow>
       (\<exists>e \<in> set db. fst (fst e) = baseKeyPending \<and> bytesToEv E (snd e) = None)))"
proof (intro conjI impI)
  show "removeExpiredPendingEvidence E evpool =
     pruneLoop E evpool {}
       (filter (\<lambda>v. bytesToEv E v \<noteq> None) (map snd (NewIterator (evidenceDB evpool) baseKeyPending)))"
    unfolding removeExpiredPendingEvidence_def by (rule pruneLoop_skips)
next
  assume "bytesToEv E v = None"
  then show "listLoop E maxBytes (vs @ v # rest) [] [] 0 = listLoop E maxBytes (vs @ [v]) [] [] 0"
    by (rule listLoop_stops)
next
  assume "snd (snd (listEvidence E evpool baseKeyPending maxBytes)) \<noteq> None"
  then show "\<exists>e \<in> set (evidenceDB evpool). fst (fst e) = baseKeyPending \<and> bytesToEv E (snd e) = None"
    by (rule listEvidence_error_source)
next
  assume "\<exists>e \<in> set (evidenceDB evpool). fst (fst e) = baseKeyPending \<and> bytesToEv E (snd e) = None"
  then show "snd (snd (listEvidence E evpool baseKeyPending (- 1))) \<noteq> None"
    using listEvidence_unbounded_error [of E evpool baseKeyPending] by blast
next
  assume wk: "pendingWellKeyed E db"
  let ?p0 = "\<lparr>evidenceList = [], evidenceSize = 0, evidenceDB = db, state = st,
            pruningHeight = 0, pruningTime = 0\<rparr>"
  have sub: "set (evidenceDB (snd (removeExpiredPendingEvidence E ?p0))) \<subseteq> set db"
    by (auto simp: pruned_evidenceDB)
  have kept: "\<And>e. e \<in> set db \<Longrightarrow> fst (fst e) = baseKeyPending \<Longrightarrow> bytesToEv E (snd e) = None
      \<Longrightarrow> e \<in> set (evidenceDB (snd (removeExpiredPendingEvidence E ?p0)))"
    using wk undecodable_entry_kept [of E ?p0] by simp
  show "(\<exists>err. NewPool E st db = Inl err) \<longleftrightarrow>
       (\<exists>e \<in> set db. fst (fst e) = baseKeyPending \<and> bytesToEv E (snd e) = None)"
    unfolding NewPool_fails_iff using sub kept by blast
qed

text \<open>
  The listing fails as a whole: on a store whose first pending entry does not unmarshal
  \<open>NewPool\<close> returns the error, and \<open>PendingEvidence\<close> returns nothing, although the second
  entry holds a record.
\<close>

lemma exDbCorrupt_facts:
  "bytesToEv exEnv [0] = None"
  "pendingWellKeyed exEnv exDbCorrupt"
  "((baseKeyPending, 50, 1), [0]) \<in> set exDbCorrupt"
  by (simp_all add: pendingWellKeyed_def exDbCorrupt_def bytesToEv_def exEnv_def keyPending_def
      keySuffix_def)

lemma exDbCorrupt_records:
  "pendingRecords exEnv (exPool\<lparr>evidenceSize := 2, evidenceDB := exDbCorrupt\<rparr>) = [exEv 95 190 2]"
  by (simp add: pendingRecords_def NewIterator_def exDbCorrupt_def key_rank_def bytesToEv_def
      exEnv_def exEv_def)

theorem scan_decode_failure_counterexample:
  "NewPool exEnv (exState 100 200) exDbCorrupt = Inl (ErrOther ''unmarshal'') \<and>
   pendingRecords exEnv (exPool\<lparr>evidenceSize := 2, evidenceDB := exDbCorrupt\<rparr>) = [exEv 95 190 2] \<and>
   listEvidence exEnv (exPool\<lparr>evidenceSize := 2, evidenceDB := exDbCorrupt\<rparr>) baseKeyPending (- 1)
     = ([], 0, Some (ErrOther ''unmarshal'')) \<and>
   PendingEvidence exEnv (exPool\<lparr>evidenceSize := 2, evidenceDB := exDbCorrupt\<rparr>) (- 1) = ([], 0)"
proof -
  have it: "map snd (NewIterator exDbCorrupt baseKeyPending) = [[0], [95, 190, 2]]"
    by (simp add: NewIterator_def exDbCorrupt_def key_rank_def)
  have um: "Unmarshal exEnv [0] = None" by (simp add: exEnv_def)
  have b: "bytesToEv exEnv [0] = None" "bytesToEv exEnv [95, 190, 2] = Some (exEv 95 190 2)"
    by (simp_all add: bytesToEv_def exEnv_def exEv_def)
  have nex: "\<not> isExpired \<lparr>evidenceList = [], evidenceSize = 0, evidenceDB = exDbCorrupt,
        state = exState 100 200, pruningHeight = 0, pruningTime = 0\<rparr>
      (Height (exEv 95 190 2)) (Time (exEv 95 190 2))"
    by (simp add: isExpired_def State_def exState_def exEv_def Sub_def maxDuration_def minDuration_def)
  have np: "NewPool exEnv (exState 100 200) exDbCorrupt = Inl (ErrOther ''unmarshal'')"
    using nex by (simp add: NewPool_def removeExpiredPendingEvidence_def listEvidence_def it b um Let_def)
  have le: "listEvidence exEnv (exPool\<lparr>evidenceSize := 2, evidenceDB := exDbCorrupt\<rparr>) baseKeyPending (- 1)
     = ([], 0, Some (ErrOther ''unmarshal''))"
    by (simp add: listEvidence_def it um)
  have pe: "PendingEvidence exEnv (exPool\<lparr>evidenceSize := 2, evidenceDB := exDbCorrupt\<rparr>) (- 1) = ([], 0)"
    by (simp add: PendingEvidence_def le Size_def)
  from np le pe exDbCorrupt_records show ?thesis by simp
qed

theorem scan_decode_failure_witness:
  "bytesToEv exEnv [0] = None \<and> pendingWellKeyed exEnv exDbCorrupt \<and>
   (\<exists>err. NewPool exEnv (exState 100 200) exDbCorrupt = Inl err) \<and>
   snd (snd (listEvidence exEnv (exPool\<lparr>evidenceSize := 2, evidenceDB := exDbCorrupt\<rparr>)
     baseKeyPending (- 1))) \<noteq> None \<and>
   listLoop exEnv (- 1) ([] @ [0] # [[95, 190, 2]]) [] [] 0 = listLoop exEnv (- 1) ([] @ [[0]]) [] [] 0 \<and>
   pendingRecords exEnv (exPool\<lparr>evidenceSize := 2, evidenceDB := exDbCorrupt\<rparr>) = [exEv 95 190 2]"
proof -
  have ex: "\<exists>e \<in> set exDbCorrupt. fst (fst e) = baseKeyPending \<and> bytesToEv exEnv (snd e) = None"
    using exDbCorrupt_facts by (intro bexI [of _ "((baseKeyPending, 50, 1), [0])"]) simp_all
  from scan_decode_failure [of exEnv "exPool\<lparr>evidenceSize := 2, evidenceDB := exDbCorrupt\<rparr>"
      "[0]" "- 1" "[]" "[[95, 190, 2]]" exDbCorrupt "exState 100 200"]
    ex exDbCorrupt_facts exDbCorrupt_records
  show ?thesis by simp
qed

end
